theory Spec2Isabelle
  imports Complex_Main
begin

section \<open>Values, promises and the timing primitives (utils/general.ts)\<close>

text \<open>
  JavaScript numbers are modelled as real numbers (no NaN, no infinities, no rounding);
  every division of the source is guarded in the theorems by a hypothesis that the
  divisor is positive. Errors are values: \<open>TimeoutError\<close> is the class of
  utils/timeout-error.ts, \<open>TypeError\<close> is what calling \<open>undefined\<close> throws, and
  \<open>LoadFailure\<close> stands for the error event or decode exception of an image element.
\<close>

datatype js_error = TimeoutError | TypeError | LoadFailure

datatype js_value =
    Undefined
  | Null
  | JBool bool
  | JNum real
  | JStr string
  | JErr js_error

text \<open>The truthiness test of \<open>if (reason)\<close>.\<close>

fun truthy :: "js_value \<Rightarrow> bool" where
  "truthy Undefined = False"
| "truthy Null = False"
| "truthy (JBool b) = b"
| "truthy (JNum n) = (n \<noteq> 0)"
| "truthy (JStr s) = (s \<noteq> [])"
| "truthy (JErr e) = True"

text \<open>A \<open>Promise<void>\<close>: it settles once, later calls of resolve or reject are ignored.\<close>

datatype promise = Pending | Fulfilled | Rejected js_value

definition resolve :: "promise \<Rightarrow> promise" where
  "resolve p = (if p = Pending then Fulfilled else p)"

definition reject :: "js_value \<Rightarrow> promise \<Rightarrow> promise" where
  "reject r p = (if p = Pending then Rejected r else p)"

text \<open>
  The handle of \<open>waitForTimeout\<close> with the variables its closures share: the promise,
  whether the timer \<open>id\<close> is still scheduled, and whether \<open>innerResolve\<close> and
  \<open>innerReject\<close> are defined (the timer callback sets both to \<open>undefined\<close>).
\<close>

record Timeout =
  promise :: promise
  scheduled :: bool
  innerResolve :: bool
  innerReject :: bool

definition waitForTimeout :: "real \<Rightarrow> Timeout" where
  "waitForTimeout ms =
     \<lparr> promise = Pending, scheduled = True, innerResolve = True, innerReject = True \<rparr>"

text \<open>The timer callback; the host runs it only while the timer is scheduled.\<close>

definition elapse :: "Timeout \<Rightarrow> Timeout" where
  "elapse h =
     (if scheduled h
      then h \<lparr> innerResolve := False, innerReject := False,
               promise := resolve (promise h), scheduled := False \<rparr>
      else h)"

text \<open>
  \<open>cancel(reason)\<close>: clears the timer, then calls \<open>innerReject(reason)\<close> for a truthy
  reason and \<open>innerResolve()\<close> otherwise. Calling a variable that is \<open>undefined\<close>
  throws a TypeError, returned as the first component.
\<close>

definition cancel :: "js_value \<Rightarrow> Timeout \<Rightarrow> js_error option \<times> Timeout" where
  "cancel reason h =
     (let h1 = h \<lparr> scheduled := False \<rparr> in
      if truthy reason
      then (if innerReject h1 then (None, h1 \<lparr> promise := reject reason (promise h1) \<rparr>)
            else (Some TypeError, h1))
      else (if innerResolve h1 then (None, h1 \<lparr> promise := resolve (promise h1) \<rparr>)
            else (Some TypeError, h1)))"

text \<open>
  \<open>promiseWithTimeout(promise, timeout)\<close>: the race promise and its timer. The timer
  callback rejects with a TimeoutError; the settling of the wrapped promise clears the
  timer and settles the race with the same outcome.
\<close>

record Race =
  racePromise :: promise
  raceTimer :: bool

definition promiseWithTimeout :: "Race" where
  "promiseWithTimeout = \<lparr> racePromise = Pending, raceTimer = True \<rparr>"

definition raceTimerCallback :: "Race \<Rightarrow> Race" where
  "raceTimerCallback r =
     (if raceTimer r
      then r \<lparr> racePromise := reject (JErr TimeoutError) (racePromise r), raceTimer := False \<rparr>
      else r)"

definition raceSettled :: "js_value option \<Rightarrow> Race \<Rightarrow> Race" where
  "raceSettled outcome r =
     (case outcome of
        None \<Rightarrow> r \<lparr> raceTimer := False, racePromise := resolve (racePromise r) \<rparr>
      | Some e \<Rightarrow> r \<lparr> raceTimer := False, racePromise := reject e (racePromise r) \<rparr>)"

section \<open>The data model of the lightbox (components/lightbox-zoom.ts)\<close>

text \<open>
  The recognised options that change behaviour, and the class names the code writes.
  The selector, id and button class options only name DOM nodes and are left out.
\<close>

record Options =
  galleryMode :: bool
  galleryLoop :: bool
  loadFullResImmediately :: bool
  loadTimeoutBeforePreview :: real
  closeOnScroll :: bool
  closeOnResize :: bool
  scrollThreshold :: real
  lightboxClassVisible :: string
  lightboxClassOpen :: string
  bufferClassLoad :: string
  bufferClassActive :: string
  bufferClassFront :: string
  bufferClassZoom :: string

text \<open>The default values \<open>init\<close> spreads the given options over.\<close>

definition defaultOptions :: Options where
  "defaultOptions =
     \<lparr> galleryMode = True, galleryLoop = True, loadFullResImmediately = False,
       loadTimeoutBeforePreview = 50, closeOnScroll = True, closeOnResize = False,
       scrollThreshold = 20, lightboxClassVisible = ''visible'', lightboxClassOpen = ''open'',
       bufferClassLoad = ''load'', bufferClassActive = ''active'',
       bufferClassFront = ''front'', bufferClassZoom = ''zoom'' \<rparr>"

datatype BufferState = Inactive | Active | Loading

datatype LightboxState = Closed | Opening | Open | Closing

record DOMRect =
  rectLeft :: real
  rectTop :: real
  rectWidth :: real
  rectHeight :: real

text \<open>
  The pan handler \<open>bufferZoomIn\<close> registers is a closure over \<open>wrapperRect\<close> and
  \<open>zoomPanMulti\<close>; it is kept as the record of the two captured values.
\<close>

record PanHandler =
  wrapperRect :: DOMRect
  zoomPanMulti :: real

text \<open>
  The value of \<open>image.style.transform\<close>: empty, \<open>scale(z)\<close>,
  \<open>scale(z) translate(x%, y%)\<close>, or the two-axis scale of the opening and closing
  animation, whose numbers come from measured boxes and are not modelled.
\<close>

datatype Transform =
    TNone
  | TScale real
  | TScaleTranslate real real real
  | TGeometry

text \<open>
  A buffer with the parts of its DOM subtree the code reads or writes: the wrapper's
  class list, hidden attribute, parent and pan handler; the picture's cursor, click
  handler and the \<open>sizes\<close> of its source elements (in vw); the image's transform.
\<close>

record Buffer =
  state :: BufferState
  hideTransition :: "nat option"
  isPreview :: bool
  isZoomed :: bool
  zoomFactor :: real
  className :: "string list"
  hiddenAttr :: bool
  attached :: bool
  panHandler :: "PanHandler option"
  cursor :: string
  onclick :: bool
  sourceSizes :: "real list"
  transform :: Transform

definition createBuffer :: "Options \<Rightarrow> BufferState \<Rightarrow> bool \<Rightarrow> Buffer" where
  "createBuffer cfg st prev =
     \<lparr> state = st, hideTransition = None, isPreview = prev, isZoomed = False, zoomFactor = 1,
       className = (case st of
                      Active \<Rightarrow> [bufferClassFront cfg, bufferClassActive cfg]
                    | Loading \<Rightarrow> [bufferClassLoad cfg]
                    | Inactive \<Rightarrow> []),
       hiddenAttr = (st = Inactive), attached = False, panHandler = None,
       cursor = [], onclick = False, sourceSizes = [], transform = TNone \<rparr>"

text \<open>\<open>classList.add\<close> and \<open>classList.remove\<close> on a list of class tokens.\<close>

definition classListAdd :: "string \<Rightarrow> string list \<Rightarrow> string list" where
  "classListAdd c cs = (if c \<in> set cs then cs else cs @ [c])"

definition classListRemove :: "string \<Rightarrow> string list \<Rightarrow> string list" where
  "classListRemove c cs = filter (\<lambda>d. d \<noteq> c) cs"

text \<open>
  A tagged element of the document as \<open>bufferLoadImage\<close> and \<open>init\<close> read it: the value of
  its \<open>data-lightbox\<close> attribute (the gallery key, empty when there is none), the parsed
  \<open>data-lightbox-zoom\<close> (None when absent or not a number), the number of its source
  elements, and whether its img carries a srcset.
\<close>

record Element =
  dataLightbox :: string
  dataZoom :: "real option"
  sourceCount :: nat
  hasSrcset :: bool

text \<open>
  An image reference; references are objects, identified here by their position in
  scan order. The source's field \<open>next\<close> is named \<open>nextRef\<close>.
\<close>

record ImageReference =
  wrapper :: Element
  nextRef :: "nat option"
  previous :: "nat option"

record Lightbox =
  lightboxState :: LightboxState
  presentedImage :: "nat option"
  frontBuffer :: nat
  swapChain :: "(nat \<times> nat) list"
  rootClassName :: "string list"
  rootHidden :: bool
  rootAbsolute :: bool

section \<open>The event loop: suspended calls and pending operations\<close>

text \<open>
  The code is asynchronous and single-threaded. Every \<open>await\<close> of the source is a
  constructor of \<open>frame\<close> holding the local variables that are live after it; a suspended
  call stack is a list of frames, innermost first. A task is such a stack with the
  operation it waits for: a render sync (\<open>waitForNextRepaint\<close>), a delay
  (\<open>waitForTimeout\<close>), an image load (the promise of \<open>bufferLoadImage\<close>,
  \<open>bufferLoadPreview\<close> or \<open>decode\<close>), or the race of a load against its timeout
  (\<open>promiseWithTimeout\<close>). Buffers, delays, races and loads are objects on a heap, each
  a list indexed by the identity of the object.
\<close>

datatype wait = WaitRepaint nat | WaitDelay nat | WaitLoad nat | WaitRace nat nat

datatype frame =
    SwapAwaitRepaint nat nat
  | SwapAwaitHide nat
  | PresentLoadingRepaint nat nat nat
  | PresentLoadingPreview nat nat nat
  | PresentNewRepaint nat nat
  | PresentRace nat nat
  | PresentTimeoutRepaint nat nat nat
  | PresentTimeoutPreview nat nat nat
  | PresentAwaitSwap
  | AfterLoad nat nat
  | AfterLoadAwaitSwap
  | NextAwaitPresent
  | PreviousAwaitPresent
  | OpenAwaitPresent
  | OpenAwaitRepaint
  | OpenAwaitTransition
  | CloseAwaitZoom
  | CloseAwaitTransition

text \<open>
  A rejected promise nobody handles: the promise an event handler returned, or the
  promise \<open>imageLoadPromise.then(...)\<close> returned.
\<close>

datatype origin = HandlerPromise | AfterLoadPromise

text \<open>
  The host and the scanned document: fixed while the lightbox runs.
  \<open>decodeInHTMLImageElement\<close> is the value of the test \<open>'decode' in HTMLImageElement\<close>.
\<close>

record Env =
  config :: Options
  doc :: "ImageReference list"
  decodeInHTMLImageElement :: bool
  screenWidth :: real
  screenHeight :: real

record sys =
  lightbox :: Lightbox
  buffers :: "Buffer list"
  delays :: "Timeout list"
  races :: "Race list"
  loads :: "promise list"
  repaints :: nat
  tasks :: "(wait \<times> frame list) list"
  lightboxTransitionDuration :: real
  bufferTransitionDuration :: real
  zoomTransitionDuration :: real
  anchorScrollPosition :: "(real \<times> real) option"
  bodyOverflowHidden :: bool
  hiddenImages :: "nat set"
  unhandled :: "(origin \<times> js_value) list"

definition updBuffer :: "nat \<Rightarrow> (Buffer \<Rightarrow> Buffer) \<Rightarrow> sys \<Rightarrow> sys" where
  "updBuffer b f s = s \<lparr> buffers := (buffers s)[b := f (buffers s ! b)] \<rparr>"

definition updLightbox :: "(Lightbox \<Rightarrow> Lightbox) \<Rightarrow> sys \<Rightarrow> sys" where
  "updLightbox f s = s \<lparr> lightbox := f (lightbox s) \<rparr>"

text \<open>\<open>createBuffer\<close> followed by \<open>lightbox.root.insertBefore(wrapper, buttonNext)\<close>.\<close>

definition insertBuffer :: "Buffer \<Rightarrow> sys \<Rightarrow> nat \<times> sys" where
  "insertBuffer b s = (length (buffers s), s \<lparr> buffers := buffers s @ [b \<lparr> attached := True \<rparr>] \<rparr>)"

definition awaitRepaint :: "frame list \<Rightarrow> sys \<Rightarrow> sys" where
  "awaitRepaint fs s =
     s \<lparr> repaints := Suc (repaints s), tasks := tasks s @ [(WaitRepaint (repaints s), fs)] \<rparr>"

definition awaitDelay :: "real \<Rightarrow> frame list \<Rightarrow> sys \<Rightarrow> sys" where
  "awaitDelay ms fs s =
     s \<lparr> delays := delays s @ [waitForTimeout ms],
         tasks := tasks s @ [(WaitDelay (length (delays s)), fs)] \<rparr>"

definition awaitLoad :: "frame list \<Rightarrow> sys \<Rightarrow> sys" where
  "awaitLoad fs s =
     s \<lparr> loads := loads s @ [Pending], tasks := tasks s @ [(WaitLoad (length (loads s)), fs)] \<rparr>"

definition logUnhandled :: "origin \<Rightarrow> js_value \<Rightarrow> sys \<Rightarrow> sys" where
  "logUnhandled who e s = s \<lparr> unhandled := unhandled s @ [(who, e)] \<rparr>"

section \<open>Zooming\<close>

definition bufferZoomIn :: "Options \<Rightarrow> DOMRect \<Rightarrow> nat \<Rightarrow> sys \<Rightarrow> sys" where
  "bufferZoomIn cfg rect b s =
     (if lightboxState (lightbox s) \<noteq> Open \<or> isZoomed (buffers s ! b) then s
      else
        let z = zoomFactor (buffers s ! b);
            s1 = (if \<not> loadFullResImmediately cfg
                  then updBuffer b (\<lambda>x. x \<lparr> sourceSizes := map (\<lambda>_. z * 100) (sourceSizes x) \<rparr>) s
                  else s);
            s2 = updBuffer b (\<lambda>x. x \<lparr> isZoomed := True, cursor := ''zoom-out'',
                                        transform := TScale z \<rparr>) s1;
            multi = (1 - z) / z
        in updBuffer b (\<lambda>x. x \<lparr> className := classListAdd (bufferClassZoom cfg) (className x),
                                  panHandler := Some \<lparr> wrapperRect = rect, zoomPanMulti = multi \<rparr> \<rparr>) s2)"

definition bufferZoomOut :: "Options \<Rightarrow> nat \<Rightarrow> sys \<Rightarrow> sys" where
  "bufferZoomOut cfg b s =
     (if \<not> isZoomed (buffers s ! b) then s
      else
        let s1 = updBuffer b (\<lambda>x. x \<lparr> isZoomed := False, cursor := ''zoom-in'', transform := TNone,
                                        className := classListRemove (bufferClassZoom cfg) (className x),
                                        panHandler := None \<rparr>) s
        in if \<not> loadFullResImmediately cfg
           then updBuffer b (\<lambda>x. x \<lparr> sourceSizes := map (\<lambda>_. 100) (sourceSizes x) \<rparr>) s1
           else s1)"

text \<open>
  A move event as the pan handler reads it: a pointer or mouse event has \<open>clientX\<close> and
  \<open>clientY\<close>; a touch event has the list \<open>targetTouches\<close>, possibly empty.
\<close>

datatype move_event = PointerOrMouse real real | Touch "(real \<times> real) list"

fun clientX :: "move_event \<Rightarrow> real option" where
  "clientX (PointerOrMouse x y) = Some x"
| "clientX (Touch []) = None"
| "clientX (Touch (t # ts)) = Some (fst t)"

fun clientY :: "move_event \<Rightarrow> real option" where
  "clientY (PointerOrMouse x y) = Some y"
| "clientY (Touch []) = None"
| "clientY (Touch (t # ts)) = Some (snd t)"

definition normalized :: "real \<Rightarrow> real \<Rightarrow> real" where
  "normalized pos extent = max (min ((pos - extent * 0.5) / extent) 0.5) (- 0.5)"

definition normalizedX :: "Env \<Rightarrow> PanHandler \<Rightarrow> move_event \<Rightarrow> real" where
  "normalizedX env h e =
     (let posX = (case clientX e of Some x \<Rightarrow> x - rectLeft (wrapperRect h)
                                  | None \<Rightarrow> screenWidth env * 0.5)
      in normalized posX (rectWidth (wrapperRect h)))"

definition normalizedY :: "Env \<Rightarrow> PanHandler \<Rightarrow> move_event \<Rightarrow> real" where
  "normalizedY env h e =
     (let posY = (case clientY e of Some y \<Rightarrow> y - rectTop (wrapperRect h)
                                  | None \<Rightarrow> screenHeight env * 0.5)
      in normalized posY (rectHeight (wrapperRect h)))"

text \<open>The pan handler: the transform it writes on the image of buffer \<open>b\<close>.\<close>

definition panTransform :: "Env \<Rightarrow> PanHandler \<Rightarrow> real \<Rightarrow> move_event \<Rightarrow> Transform" where
  "panTransform env h z e =
     TScaleTranslate z (normalizedX env h e * zoomPanMulti h * 100)
                       (normalizedY env h e * zoomPanMulti h * 100)"

definition panMove :: "Env \<Rightarrow> nat \<Rightarrow> move_event \<Rightarrow> sys \<Rightarrow> sys" where
  "panMove env b e s =
     (case panHandler (buffers s ! b) of
        None \<Rightarrow> s
      | Some h \<Rightarrow> updBuffer b (\<lambda>x. x \<lparr> transform := panTransform env h (zoomFactor x) e \<rparr>) s)"

section \<open>Returning to a caller, and the calls that wait for a delay\<close>

text \<open>
  \<open>returnTo k r s\<close> resumes the caller stack \<open>k\<close> of an asynchronous call that has
  settled with \<open>r\<close> (None: fulfilled; Some e: rejected with e). The frames that wait for a
  callee are \<open>PresentAwaitSwap\<close> (the \<open>await bufferSwap(previewBuffer)\<close> of
  \<open>lightboxPresentImage\<close>), \<open>AfterLoadAwaitSwap\<close> (the one in the callback chained to the
  load promise), and the \<open>await lightboxPresentImage(...)\<close> of the next, previous and
  open handlers. Reading \<open>lightbox.presentedImage.image\<close> when no image is presented
  throws a TypeError.
\<close>

fun returnTo :: "frame list \<Rightarrow> js_value option \<Rightarrow> sys \<Rightarrow> sys" where
  "returnTo [] r s = (case r of None \<Rightarrow> s | Some e \<Rightarrow> logUnhandled HandlerPromise e s)"
| "returnTo (PresentAwaitSwap # k) r s = returnTo k r s"
| "returnTo (AfterLoadAwaitSwap # k) r s =
     (case r of None \<Rightarrow> s | Some e \<Rightarrow> logUnhandled AfterLoadPromise e s)"
| "returnTo (NextAwaitPresent # k) r s =
     (case r of
        Some e \<Rightarrow> returnTo k r s
      | None \<Rightarrow>
         (case presentedImage (lightbox s) of
            None \<Rightarrow> returnTo k (Some (JErr TypeError)) s
          | Some p \<Rightarrow> returnTo k None (s \<lparr> hiddenImages := insert p (hiddenImages s) \<rparr>)))"
| "returnTo (PreviousAwaitPresent # k) r s =
     (case r of
        Some e \<Rightarrow> returnTo k r s
      | None \<Rightarrow>
         (case presentedImage (lightbox s) of
            None \<Rightarrow> returnTo k (Some (JErr TypeError)) s
          | Some p \<Rightarrow> returnTo k None (s \<lparr> hiddenImages := insert p (hiddenImages s) \<rparr>)))"
| "returnTo (OpenAwaitPresent # k) r s =
     (case r of
        Some e \<Rightarrow> returnTo k r s
      | None \<Rightarrow>
         (let s1 = updLightbox (\<lambda>l. l \<lparr> rootHidden := False \<rparr>) s in
          case presentedImage (lightbox s1) of
            None \<Rightarrow> returnTo k (Some (JErr TypeError)) s1
          | Some p \<Rightarrow>
              awaitRepaint (OpenAwaitRepaint # k)
                (updBuffer (frontBuffer (lightbox s1)) (\<lambda>x. x \<lparr> transform := TGeometry \<rparr>) s1)))"
| "returnTo (f # k) r s = s"

text \<open>The cleanup at the end of \<open>bufferSwap\<close> (from \<open>backBuffer.hideTransition = null\<close> on).\<close>

definition swapCleanup :: "nat \<Rightarrow> sys \<Rightarrow> sys" where
  "swapCleanup bk s =
     (let s1 = updBuffer bk (\<lambda>x. x \<lparr> hideTransition := None \<rparr>) s in
      if state (buffers s1 ! bk) = Inactive
      then (if isPreview (buffers s1 ! bk)
            then updBuffer bk (\<lambda>x. x \<lparr> attached := False \<rparr>) s1
            else updBuffer bk (\<lambda>x. x \<lparr> hiddenAttr := True \<rparr>) s1)
      else s1)"

text \<open>\<open>lightboxCloseHandler\<close>, in the three parts its awaits divide it into.\<close>

definition closeFinish :: "Options \<Rightarrow> frame list \<Rightarrow> sys \<Rightarrow> sys" where
  "closeFinish cfg k s =
     (case presentedImage (lightbox s) of
        None \<Rightarrow> returnTo k (Some (JErr TypeError)) s
      | Some p \<Rightarrow>
         (let s1 = s \<lparr> hiddenImages := hiddenImages s - {p} \<rparr>;
              s2 = updBuffer (frontBuffer (lightbox s1)) (\<lambda>x. x \<lparr> transform := TNone \<rparr>) s1;
              s3 = updLightbox (\<lambda>l. l \<lparr> rootClassName := [], rootHidden := True,
                                            rootAbsolute := False, lightboxState := Closed \<rparr>) s2;
              s4 = (if \<not> closeOnScroll cfg then s3 \<lparr> bodyOverflowHidden := False \<rparr> else s3)
          in returnTo k None s4))"

definition closeAfterZoom :: "Options \<Rightarrow> frame list \<Rightarrow> sys \<Rightarrow> sys" where
  "closeAfterZoom cfg k s =
     (case presentedImage (lightbox s) of
        None \<Rightarrow> returnTo k (Some (JErr TypeError)) s
      | Some p \<Rightarrow>
         (let s1 = updBuffer (frontBuffer (lightbox s)) (\<lambda>x. x \<lparr> transform := TGeometry \<rparr>) s;
              s2 = updLightbox (\<lambda>l. l \<lparr> rootClassName := [lightboxClassVisible cfg],
                                            rootAbsolute := True \<rparr>) s1
          in if lightboxTransitionDuration s2 > 0
             then awaitDelay (lightboxTransitionDuration s2) (CloseAwaitTransition # k) s2
             else closeFinish cfg k s2))"

definition lightboxCloseHandler :: "Options \<Rightarrow> sys \<Rightarrow> sys" where
  "lightboxCloseHandler cfg s =
     (let s1 = updLightbox (\<lambda>l. l \<lparr> lightboxState := Closing \<rparr>) s in
      if isZoomed (buffers s1 ! frontBuffer (lightbox s1))
      then awaitDelay (zoomTransitionDuration s1) [CloseAwaitZoom]
             (bufferZoomOut cfg (frontBuffer (lightbox s1)) s1)
      else closeAfterZoom cfg [] s1)"

text \<open>The frames that wait for a delay, resumed when its promise is fulfilled.\<close>

fun resumeDelay :: "Options \<Rightarrow> frame list \<Rightarrow> sys \<Rightarrow> sys" where
  "resumeDelay cfg (SwapAwaitHide bk # k) s = returnTo k None (swapCleanup bk s)"
| "resumeDelay cfg (OpenAwaitTransition # k) s =
     returnTo k None (updLightbox (\<lambda>l. l \<lparr> lightboxState := Open \<rparr>) s)"
| "resumeDelay cfg (CloseAwaitZoom # k) s = closeAfterZoom cfg k s"
| "resumeDelay cfg (CloseAwaitTransition # k) s = closeFinish cfg k s"
| "resumeDelay cfg fs s = s"

definition wakeDelay :: "Options \<Rightarrow> nat \<Rightarrow> sys \<Rightarrow> sys" where
  "wakeDelay cfg t s =
     foldl (\<lambda>s' task. resumeDelay cfg (snd task) s')
       (s \<lparr> tasks := filter (\<lambda>task. fst task \<noteq> WaitDelay t) (tasks s) \<rparr>)
       (filter (\<lambda>task. fst task = WaitDelay t) (tasks s))"

section \<open>The swap chain: \<open>bufferSwap\<close>\<close>

text \<open>
  The final class assignment of \<open>bufferSwap\<close>. \<open>bufferUpdateImageRatio\<close> only writes the
  width and height of the image, which are not modelled.
\<close>

definition swapFinal :: "Options \<Rightarrow> nat \<Rightarrow> nat \<Rightarrow> sys \<Rightarrow> sys" where
  "swapFinal cfg b bk s =
     updBuffer bk (\<lambda>x. x \<lparr> className := [] \<rparr>)
       (updBuffer b (\<lambda>x. x \<lparr> className := [bufferClassFront cfg, bufferClassActive cfg] \<rparr>) s)"

text \<open>After the render sync of a swap with a transition: the hide timer of the back buffer.\<close>

definition swapAfterRepaint :: "Options \<Rightarrow> nat \<Rightarrow> nat \<Rightarrow> frame list \<Rightarrow> sys \<Rightarrow> sys" where
  "swapAfterRepaint cfg b bk k s =
     (let s1 = swapFinal cfg b bk s;
          t = length (delays s1);
          s2 = s1 \<lparr> delays := delays s1 @ [waitForTimeout (bufferTransitionDuration s1)] \<rparr>;
          s3 = updBuffer bk (\<lambda>x. x \<lparr> hideTransition := Some t \<rparr>) s2
      in s3 \<lparr> tasks := tasks s3 @ [(WaitDelay t, SwapAwaitHide bk # k)] \<rparr>)"

text \<open>
  From the computation of \<open>immediate\<close> to the first await or the end. \<open>woken\<close> is the
  delay that \<open>buffer.hideTransition.cancel()\<close> has just fulfilled: the swap that waits for
  it resumes in a microtask, that is after this synchronous part and before the caller
  of this swap continues.
\<close>

definition swapFront :: "Options \<Rightarrow> nat \<Rightarrow> nat \<Rightarrow> nat option \<Rightarrow> frame list \<Rightarrow> sys \<Rightarrow> sys" where
  "swapFront cfg b bk woken k s =
     (let immediate = (bufferTransitionDuration s = 0 \<or> \<not> attached (buffers s ! b)
                        \<or> lightboxState (lightbox s) \<noteq> Open);
          wake = (\<lambda>s'. case woken of None \<Rightarrow> s' | Some t \<Rightarrow> wakeDelay cfg t s');
          s1 = updBuffer b (\<lambda>x. x \<lparr> hiddenAttr := False \<rparr>) s
      in if \<not> immediate
         then wake (awaitRepaint (SwapAwaitRepaint b bk # k)
                      (updBuffer bk (\<lambda>x. x \<lparr> className := [bufferClassActive cfg] \<rparr>)
                         (updBuffer b (\<lambda>x. x \<lparr> className := [bufferClassFront cfg] \<rparr>) s1)))
         else returnTo k None (wake (swapCleanup bk (swapFinal cfg b bk s1))))"

definition bufferSwap :: "Options \<Rightarrow> nat \<Rightarrow> frame list \<Rightarrow> sys \<Rightarrow> sys" where
  "bufferSwap cfg b k s =
     (if state (buffers s ! b) = Active then returnTo k None s
      else
        let bk = frontBuffer (lightbox s);
            s1 = updLightbox (\<lambda>l. l \<lparr> frontBuffer := b \<rparr>) s;
            s2 = updBuffer b (\<lambda>x. x \<lparr> state := Active \<rparr>) s1;
            s3 = updBuffer bk (\<lambda>x. x \<lparr> state := Inactive \<rparr>) s2
        in case hideTransition (buffers s3 ! b) of
             None \<Rightarrow> swapFront cfg b bk None k s3
           | Some t \<Rightarrow>
              (case cancel Undefined (delays s3 ! t) of
                 (Some e, h) \<Rightarrow> returnTo k (Some (JErr e)) (s3 \<lparr> delays := (delays s3)[t := h] \<rparr>)
               | (None, h) \<Rightarrow>
                   swapFront cfg b bk (Some t) k
                     (updBuffer b (\<lambda>x. x \<lparr> hideTransition := None \<rparr>)
                        (s3 \<lparr> delays := (delays s3)[t := h] \<rparr>))))"

section \<open>The image load pipeline\<close>

text \<open>
  The synchronous parts of \<open>bufferLoadPreview\<close> and \<open>bufferLoadImage\<close>, up to their
  \<open>await loadPromise\<close>. The promise each call returns is a pending entry of \<open>loads\<close>,
  settled by the host after load and decode. Captions, alt texts and URLs are not
  modelled.
\<close>

definition bufferLoadPreview :: "nat \<Rightarrow> sys \<Rightarrow> sys" where
  "bufferLoadPreview b s = updBuffer b (\<lambda>x. x \<lparr> sourceSizes := [], isPreview := True \<rparr>) s"

definition bufferLoadImage :: "Env \<Rightarrow> nat \<Rightarrow> nat \<Rightarrow> sys \<Rightarrow> sys" where
  "bufferLoadImage env b img s =
     (let el = wrapper (doc env ! img);
          zoomed = (case dataZoom el of None \<Rightarrow> False | Some z \<Rightarrow> z > 1);
          imageSizes = (if loadFullResImmediately (config env) \<and> zoomed
                        then the (dataZoom el) * 100 else 100);
          n = sourceCount el + (if hasSrcset el then 1 else 0);
          s1 = updBuffer b (\<lambda>x. x \<lparr> sourceSizes := replicate n imageSizes \<rparr>) s;
          s2 = (if zoomed
                then updBuffer b (\<lambda>x. x \<lparr> zoomFactor := the (dataZoom el), cursor := ''zoom-in'',
                                            onclick := True \<rparr>) s1
                else updBuffer b (\<lambda>x. x \<lparr> zoomFactor := 1, cursor := [], onclick := False \<rparr>) s1)
      in updBuffer b (\<lambda>x. x \<lparr> isPreview := False \<rparr>) s2)"

text \<open>The callback chained to the load promise (\<open>imageLoadPromise.then(...)\<close>).\<close>

definition afterLoad :: "Options \<Rightarrow> nat \<Rightarrow> nat \<Rightarrow> sys \<Rightarrow> sys" where
  "afterLoad cfg img ib s =
     (if presentedImage (lightbox s) = Some img \<and> lightboxState (lightbox s) \<noteq> Closing
      then bufferSwap cfg ib [AfterLoadAwaitSwap] s
      else updBuffer ib (\<lambda>x. x \<lparr> state := Inactive, className := [], hiddenAttr := True \<rparr>) s)"

text \<open>
  \<open>lightboxPresentImage\<close> after \<open>await promiseWithTimeout(...)\<close>: the end of the try block,
  or the catch block up to its render sync.
\<close>

definition presentAfterRace ::
  "Options \<Rightarrow> nat \<Rightarrow> nat \<Rightarrow> js_value option \<Rightarrow> frame list \<Rightarrow> sys \<Rightarrow> sys" where
  "presentAfterRace cfg img ib r k s =
     (case r of
        None \<Rightarrow> returnTo k None s
      | Some e \<Rightarrow>
         if e \<noteq> JErr TimeoutError then returnTo k (Some e) s
         else (let (pb, s1) = insertBuffer (createBuffer cfg Loading False) s
               in awaitRepaint (PresentTimeoutRepaint img ib pb # k) s1))"

text \<open>
  \<open>lightboxPresentImage\<close> from \<open>imageLoadPromise.then(...)\<close> to the await of the race, for
  the load promise \<open>l\<close>. On a pending promise both reactions are registered, the callback
  first. On a settled promise (\<open>Promise.resolve()\<close>) both run as microtasks of the
  current task, in the order of registration.
\<close>

definition presentLoad :: "Options \<Rightarrow> nat \<Rightarrow> nat \<Rightarrow> nat \<Rightarrow> frame list \<Rightarrow> sys \<Rightarrow> sys" where
  "presentLoad cfg img ib l k s =
     (case loads s ! l of
        Pending \<Rightarrow>
          s \<lparr> races := races s @ [promiseWithTimeout],
              tasks := tasks s @ [(WaitLoad l, [AfterLoad img ib]),
                                  (WaitRace l (length (races s)), PresentRace img ib # k)] \<rparr>
      | Fulfilled \<Rightarrow>
          presentAfterRace cfg img ib None k
            (afterLoad cfg img ib (s \<lparr> races := races s @ [raceSettled None promiseWithTimeout] \<rparr>))
      | Rejected e \<Rightarrow>
          presentAfterRace cfg img ib (Some e) k
            (logUnhandled AfterLoadPromise e
               (s \<lparr> races := races s @ [raceSettled (Some e) promiseWithTimeout] \<rparr>)))"

definition lightboxPresentImage :: "Env \<Rightarrow> nat \<Rightarrow> frame list \<Rightarrow> sys \<Rightarrow> sys" where
  "lightboxPresentImage env img k s =
     (let retrievedBuffer = map_of (swapChain (lightbox s)) img;
          s1 = updLightbox (\<lambda>l. l \<lparr> presentedImage := Some img \<rparr>) s
      in case retrievedBuffer of
           None \<Rightarrow>
             (let (ib, s2) = insertBuffer (createBuffer (config env) Loading False) s1;
                  s3 = updLightbox (\<lambda>l. l \<lparr> swapChain := swapChain l @ [(img, ib)] \<rparr>) s2
              in awaitRepaint (PresentNewRepaint img ib # k) s3)
         | Some rb \<Rightarrow>
             if state (buffers s1 ! rb) = Loading
             then (let (pb, s2) = insertBuffer (createBuffer (config env) Loading False) s1
                   in awaitRepaint (PresentLoadingRepaint img rb pb # k) s2)
             else presentLoad (config env) img rb (length (loads s1)) k
                    (s1 \<lparr> loads := loads s1 @
                           [if decodeInHTMLImageElement env then Pending else Fulfilled] \<rparr>))"

text \<open>The frames that wait for a render sync.\<close>

fun resumeRepaint :: "Env \<Rightarrow> frame list \<Rightarrow> sys \<Rightarrow> sys" where
  "resumeRepaint env (SwapAwaitRepaint b bk # k) s = swapAfterRepaint (config env) b bk k s"
| "resumeRepaint env (PresentLoadingRepaint img rb pb # k) s =
     awaitLoad (PresentLoadingPreview img rb pb # k) (bufferLoadPreview pb s)"
| "resumeRepaint env (PresentNewRepaint img ib # k) s =
     (let s1 = bufferLoadImage env ib img s
      in presentLoad (config env) img ib (length (loads s1)) k
           (s1 \<lparr> loads := loads s1 @ [Pending] \<rparr>))"
| "resumeRepaint env (PresentTimeoutRepaint img ib pb # k) s =
     awaitLoad (PresentTimeoutPreview img ib pb # k) (bufferLoadPreview pb s)"
| "resumeRepaint env (OpenAwaitRepaint # k) s =
     (let s1 = updLightbox (\<lambda>l. l \<lparr> rootClassName := [lightboxClassVisible (config env),
                                                      lightboxClassOpen (config env)] \<rparr>) s
      in case presentedImage (lightbox s1) of
           None \<Rightarrow> returnTo k (Some (JErr TypeError)) s1
         | Some p \<Rightarrow>
            (let s2 = s1 \<lparr> hiddenImages := insert p (hiddenImages s1) \<rparr>;
                 s3 = updBuffer (frontBuffer (lightbox s2)) (\<lambda>x. x \<lparr> transform := TNone \<rparr>) s2
             in if lightboxTransitionDuration s3 > 0
                then awaitDelay (lightboxTransitionDuration s3) (OpenAwaitTransition # k) s3
                else returnTo k None (updLightbox (\<lambda>l. l \<lparr> lightboxState := Open \<rparr>) s3)))"
| "resumeRepaint env fs s = s"

text \<open>The frames that wait for a load promise or for its race, resumed with its outcome.\<close>

fun resumeLoad :: "Options \<Rightarrow> js_value option \<Rightarrow> frame list \<Rightarrow> sys \<Rightarrow> sys" where
  "resumeLoad cfg r (AfterLoad img ib # k) s =
     (case r of None \<Rightarrow> afterLoad cfg img ib s
              | Some e \<Rightarrow> logUnhandled AfterLoadPromise e s)"
| "resumeLoad cfg r (PresentLoadingPreview img rb pb # k) s =
     (case r of
        Some e \<Rightarrow> returnTo k (Some e) s
      | None \<Rightarrow>
          if presentedImage (lightbox s) = Some img \<and> state (buffers s ! rb) = Loading
          then bufferSwap cfg pb (PresentAwaitSwap # k) s
          else returnTo k None (updBuffer pb (\<lambda>x. x \<lparr> attached := False \<rparr>) s))"
| "resumeLoad cfg r (PresentTimeoutPreview img ib pb # k) s =
     (case r of
        Some e \<Rightarrow> returnTo k (Some e) s
      | None \<Rightarrow>
          if presentedImage (lightbox s) = Some img \<and> state (buffers s ! ib) \<noteq> Active
          then bufferSwap cfg pb (PresentAwaitSwap # k) s
          else returnTo k None (updBuffer pb (\<lambda>x. x \<lparr> attached := False \<rparr>) s))"
| "resumeLoad cfg r (PresentRace img ib # k) s = presentAfterRace cfg img ib r k s"
| "resumeLoad cfg r fs s = s"

section \<open>The presentation state machine: the event handlers\<close>

text \<open>
  \<open>lightboxNextHandler\<close> and \<open>lightboxPreviousHandler\<close> up to their await. Their
  assertions that the lightbox is open only log (\<open>console.assert\<close>, development builds);
  neither handler returns early on them.
\<close>

definition lightboxNextHandler :: "Env \<Rightarrow> sys \<Rightarrow> sys" where
  "lightboxNextHandler env s =
     (case presentedImage (lightbox s) of
        None \<Rightarrow> s
      | Some p \<Rightarrow>
         (case nextRef (doc env ! p) of
            None \<Rightarrow> s
          | Some n \<Rightarrow>
              (let s1 = bufferZoomOut (config env) (frontBuffer (lightbox s)) s;
                   s2 = s1 \<lparr> hiddenImages := hiddenImages s1 - {p} \<rparr>
               in lightboxPresentImage env n [NextAwaitPresent] s2)))"

definition lightboxPreviousHandler :: "Env \<Rightarrow> sys \<Rightarrow> sys" where
  "lightboxPreviousHandler env s =
     (case presentedImage (lightbox s) of
        None \<Rightarrow> s
      | Some p \<Rightarrow>
         (case previous (doc env ! p) of
            None \<Rightarrow> s
          | Some n \<Rightarrow>
              (let s1 = bufferZoomOut (config env) (frontBuffer (lightbox s)) s;
                   s2 = s1 \<lparr> hiddenImages := hiddenImages s1 - {p} \<rparr>
               in lightboxPresentImage env n [PreviousAwaitPresent] s2)))"

text \<open>
  The click listener \<open>init\<close> puts on the wrapper of reference \<open>i\<close>: it sets
  \<open>lightbox.presentedImage\<close> and calls \<open>lightboxOpenHandler\<close>, modelled up to its first
  await.
\<close>

definition lightboxOpenHandler :: "Env \<Rightarrow> nat \<Rightarrow> sys \<Rightarrow> sys" where
  "lightboxOpenHandler env i s =
     (let s0 = updLightbox (\<lambda>l. l \<lparr> presentedImage := Some i \<rparr>) s;
          s1 = updLightbox (\<lambda>l. l \<lparr> lightboxState := Opening \<rparr>) s0;
          s2 = (if \<not> closeOnScroll (config env) then s1 \<lparr> bodyOverflowHidden := True \<rparr> else s1)
      in lightboxPresentImage env i [OpenAwaitPresent] s2)"

text \<open>
  \<open>lightboxScrollHandler\<close>, with the scroll position the handler reads passed in, and
  \<open>lightboxResizeHandler\<close>.
\<close>

definition lightboxScrollHandler :: "Options \<Rightarrow> real \<Rightarrow> real \<Rightarrow> sys \<Rightarrow> sys" where
  "lightboxScrollHandler cfg x y s =
     (if lightboxState (lightbox s) \<noteq> Open then s
      else case anchorScrollPosition s of
             None \<Rightarrow> s \<lparr> anchorScrollPosition := Some (x, y) \<rparr>
           | Some a \<Rightarrow>
              (let deltaX = \<bar>x - fst a\<bar>; deltaY = \<bar>y - snd a\<bar>
               in if max deltaX deltaY > scrollThreshold cfg
                  then lightboxCloseHandler cfg (s \<lparr> anchorScrollPosition := None \<rparr>)
                  else s))"

definition lightboxResizeHandler :: "Options \<Rightarrow> sys \<Rightarrow> sys" where
  "lightboxResizeHandler cfg s =
     (if closeOnResize cfg \<and> lightboxState (lightbox s) = Open
      then lightboxCloseHandler cfg s else s)"

section \<open>Events of the host\<close>

text \<open>
  One event is one task of the host's event loop together with the microtasks it
  causes: a click, a scroll or resize notification, the render sync, delay or race
  timer a call waits for, or the settling of a load promise (None: fulfilled).
  The scroll listener exists only with \<open>closeOnScroll\<close>; the click handler of a picture
  only where \<open>bufferLoadImage\<close> has registered it.
\<close>

datatype event =
    ClickImage nat
  | ClickNext
  | ClickPrevious
  | ClickClose
  | ClickPicture nat DOMRect
  | PanMove nat move_event
  | Scroll real real
  | Resize
  | Repainted nat
  | DelayElapsed nat
  | RaceTimeout nat
  | LoadSettled nat "js_value option"

definition settle :: "js_value option \<Rightarrow> promise" where
  "settle r = (case r of None \<Rightarrow> Fulfilled | Some e \<Rightarrow> Rejected e)"

fun waitsForLoad :: "nat \<Rightarrow> wait \<Rightarrow> bool" where
  "waitsForLoad l (WaitLoad l') = (l = l')"
| "waitsForLoad l (WaitRace l' r) = (l = l')"
| "waitsForLoad l w = False"

fun waitsForRace :: "nat \<Rightarrow> wait \<Rightarrow> bool" where
  "waitsForRace r (WaitRace l r') = (r = r')"
| "waitsForRace r w = False"

text \<open>The reaction of \<open>promiseWithTimeout\<close> to its wrapped promise, then the waiting call.\<close>

fun loadReaction :: "Options \<Rightarrow> js_value option \<Rightarrow> wait \<times> frame list \<Rightarrow> sys \<Rightarrow> sys" where
  "loadReaction cfg r (WaitRace l t, fs) s =
     resumeLoad cfg r fs (s \<lparr> races := (races s)[t := raceSettled r (races s ! t)] \<rparr>)"
| "loadReaction cfg r (w, fs) s = resumeLoad cfg r fs s"

fun step :: "Env \<Rightarrow> event \<Rightarrow> sys \<Rightarrow> sys" where
  "step env (ClickImage i) s = (if i < length (doc env) then lightboxOpenHandler env i s else s)"
| "step env ClickNext s = lightboxNextHandler env s"
| "step env ClickPrevious s = lightboxPreviousHandler env s"
| "step env ClickClose s = lightboxCloseHandler (config env) s"
| "step env (ClickPicture b rect) s =
     (if b < length (buffers s) \<and> onclick (buffers s ! b)
      then (if \<not> isZoomed (buffers s ! b) then bufferZoomIn (config env) rect b s
            else bufferZoomOut (config env) b s)
      else s)"
| "step env (PanMove b e) s = (if b < length (buffers s) then panMove env b e s else s)"
| "step env (Scroll x y) s =
     (if closeOnScroll (config env) then lightboxScrollHandler (config env) x y s else s)"
| "step env Resize s = lightboxResizeHandler (config env) s"
| "step env (Repainted n) s =
     foldl (\<lambda>s' task. resumeRepaint env (snd task) s')
       (s \<lparr> tasks := filter (\<lambda>task. fst task \<noteq> WaitRepaint n) (tasks s) \<rparr>)
       (filter (\<lambda>task. fst task = WaitRepaint n) (tasks s))"
| "step env (DelayElapsed t) s =
     (if t < length (delays s) \<and> scheduled (delays s ! t)
      then wakeDelay (config env) t (s \<lparr> delays := (delays s)[t := elapse (delays s ! t)] \<rparr>)
      else s)"
| "step env (RaceTimeout t) s =
     (if t < length (races s) \<and> raceTimer (races s ! t)
      then foldl (\<lambda>s' task. resumeLoad (config env) (Some (JErr TimeoutError)) (snd task) s')
             (s \<lparr> races := (races s)[t := raceTimerCallback (races s ! t)],
                  tasks := filter (\<lambda>task. \<not> waitsForRace t (fst task)) (tasks s) \<rparr>)
             (filter (\<lambda>task. waitsForRace t (fst task)) (tasks s))
      else s)"
| "step env (LoadSettled l r) s =
     (if l < length (loads s) \<and> loads s ! l = Pending
      then foldl (\<lambda>s' task. loadReaction (config env) r task s')
             (s \<lparr> loads := (loads s)[l := settle r],
                  tasks := filter (\<lambda>task. \<not> waitsForLoad l (fst task)) (tasks s) \<rparr>)
             (filter (\<lambda>task. waitsForLoad l (fst task)) (tasks s))
      else s)"

definition run :: "Env \<Rightarrow> event list \<Rightarrow> sys \<Rightarrow> sys" where
  "run env evs s = foldl (\<lambda>s' e. step env e s') s evs"

section \<open>Construction: \<open>createLightbox\<close> and \<open>init\<close>\<close>

text \<open>
  \<open>createLightbox\<close>, given the three transition durations \<open>getTransitionDuration\<close> reads
  from the style sheet; the first two get 100 ms of leeway when they are not zero.
\<close>

definition createLightbox :: "Options \<Rightarrow> real \<Rightarrow> real \<Rightarrow> real \<Rightarrow> sys" where
  "createLightbox cfg dl db dz =
     \<lparr> lightbox = \<lparr> lightboxState = Closed, presentedImage = None, frontBuffer = 0,
                    swapChain = [], rootClassName = [], rootHidden = True, rootAbsolute = False \<rparr>,
       buffers = [(createBuffer cfg Active True) \<lparr> attached := True \<rparr>],
       delays = [], races = [], loads = [], repaints = 0, tasks = [],
       lightboxTransitionDuration = (if dl \<noteq> 0 then dl + 100 else dl),
       bufferTransitionDuration = (if db \<noteq> 0 then db + 100 else db),
       zoomTransitionDuration = dz,
       anchorScrollPosition = None, bodyOverflowHidden = False, hiddenImages = {},
       unhandled = [] \<rparr>"

text \<open>
  The scan of \<open>init\<close>. \<open>setupGalleryMap\<close> is the list of (key, head, tail) in insertion
  order; a new reference gets the next free position.
\<close>

definition setTail :: "string \<Rightarrow> nat \<Rightarrow> (string \<times> nat \<times> nat) list \<Rightarrow> (string \<times> nat \<times> nat) list" where
  "setTail tag i gm = map (\<lambda>(key, h, t). if key = tag then (key, h, i) else (key, h, t)) gm"

definition addImage ::
  "Options \<Rightarrow> ImageReference list \<times> (string \<times> nat \<times> nat) list \<Rightarrow> Element
     \<Rightarrow> ImageReference list \<times> (string \<times> nat \<times> nat) list" where
  "addImage cfg acc el =
     (let refs = fst acc; gm = snd acc; i = length refs;
          refs1 = refs @ [\<lparr> wrapper = el, nextRef = None, previous = None \<rparr>];
          currentGalleryTag = dataLightbox el
      in if galleryMode cfg \<and> currentGalleryTag \<noteq> []
         then (case map_of gm currentGalleryTag of
                 Some (h, t) \<Rightarrow>
                   (let refs2 = refs1[i := (refs1 ! i) \<lparr> previous := Some t \<rparr>];
                        refs3 = refs2[t := (refs2 ! t) \<lparr> nextRef := Some i \<rparr>]
                    in (refs3, setTail currentGalleryTag i gm))
               | None \<Rightarrow> (refs1, gm @ [(currentGalleryTag, i, i)]))
         else (refs1, gm))"

fun connectLoops :: "(string \<times> nat \<times> nat) list \<Rightarrow> ImageReference list \<Rightarrow> ImageReference list" where
  "connectLoops [] refs = refs"
| "connectLoops ((key, h, t) # gm) refs =
     connectLoops gm
       (if h \<noteq> t
        then (let refs1 = refs[h := (refs ! h) \<lparr> previous := Some t \<rparr>]
              in refs1[t := (refs1 ! t) \<lparr> nextRef := Some h \<rparr>])
        else refs)"

definition init :: "Options \<Rightarrow> Element list \<Rightarrow> ImageReference list" where
  "init cfg gatheredImages =
     (let scanned = foldl (addImage cfg) ([], []) gatheredImages
      in if galleryMode cfg \<and> galleryLoop cfg
         then connectLoops (snd scanned) (fst scanned)
         else fst scanned)"

section \<open>A sample document\<close>

text \<open>
  A document with two zoomable pictures (zoom factor 2) in one gallery, scanned with the
  default options in a host without \<open>decode\<close> on the \<open>HTMLImageElement\<close> constructor,
  and the lightbox built for a style sheet with transitions of 300, 200 and 100 ms.
  The concrete runs below start here.
\<close>

definition sampleElement :: Element where
  "sampleElement = \<lparr> dataLightbox = ''g'', dataZoom = Some 2, sourceCount = 1, hasSrcset = False \<rparr>"

definition sampleEnv :: Env where
  "sampleEnv =
     \<lparr> config = defaultOptions, doc = init defaultOptions [sampleElement, sampleElement],
       decodeInHTMLImageElement = False, screenWidth = 1000, screenHeight = 800 \<rparr>"

definition sampleStart :: sys where
  "sampleStart = createLightbox defaultOptions 300 200 100"

definition sampleRect :: DOMRect where
  "sampleRect = \<lparr> rectLeft = 10, rectTop = 20, rectWidth = 800, rectHeight = 600 \<rparr>"

text \<open>
  The run that opens the first picture: click, render sync, the full image loads within
  the timeout, render sync of the open handler, end of the opening transition.
\<close>

definition openFirst :: "event list" where
  "openFirst = [ClickImage 0, Repainted 0, LoadSettled 0 None, Repainted 1, DelayElapsed 0]"

definition sampleOpen :: sys where
  "sampleOpen = run sampleEnv openFirst sampleStart"

text \<open>The first picture zoomed in, at the moment \<open>lightboxCloseHandler\<close> has set the state.\<close>

definition sampleClosingZoomed :: sys where
  "sampleClosingZoomed =
     updLightbox (\<lambda>l. l \<lparr> lightboxState := Closing \<rparr>)
       (run sampleEnv [ClickPicture 1 sampleRect] sampleOpen)"

text \<open>
  The first picture clicked and its full load started (\<open>sampleLoading\<close>); then the second
  picture clicked before that load has settled (\<open>sampleRetargeted\<close>).
\<close>

definition sampleLoading :: sys where
  "sampleLoading = run sampleEnv [ClickImage 0, Repainted 0] sampleStart"

definition sampleRetargeted :: sys where
  "sampleRetargeted = run sampleEnv [ClickImage 1] sampleLoading"

text \<open>
  From \<open>sampleRetargeted\<close>: the first load times out, its preview loads and is discarded
  (the target has changed), the first open handler finishes and the lightbox is open
  while the placeholder buffer is still the front buffer and the second picture is
  loading (\<open>sampleOpenPlaceholder\<close>); then the second picture loads and is exchanged to
  the front with a transition, so that the placeholder buffer waits for its hide timer
  (\<open>sampleHiding\<close>).
\<close>

definition sampleOpenPlaceholder :: sys where
  "sampleOpenPlaceholder =
     run sampleEnv [RaceTimeout 0, Repainted 2, LoadSettled 1 None, Repainted 3, DelayElapsed 0,
                    Repainted 1] sampleRetargeted"

definition sampleHiding :: sys where
  "sampleHiding =
     run sampleEnv [RaceTimeout 0, Repainted 2, LoadSettled 1 None, Repainted 3, DelayElapsed 0,
                    Repainted 1, LoadSettled 2 None, Repainted 4] sampleRetargeted"

text \<open>
  From \<open>sampleOpen\<close>: one scroll event, the close button, the end of the closing
  transition, the page scrolled on while the lightbox is closed, and the first picture
  opened again.
\<close>

definition sampleReopened :: sys where
  "sampleReopened =
     run sampleEnv [Scroll 0 100, ClickClose, DelayElapsed 1, Scroll 0 999,
                    ClickImage 0, Repainted 2, DelayElapsed 2] sampleOpen"

text \<open>
  From \<open>sampleOpen\<close>: the close button; then, while the closing transition runs, the next
  button (the second picture loads within the timeout) and the previous button.
\<close>

definition navigateWhileClosing :: "event list" where
  "navigateWhileClosing = [ClickClose, ClickNext, Repainted 2, LoadSettled 1 None, ClickPrevious]"

text \<open>A scan of five elements, three of them in the gallery \<open>g\<close>.\<close>

definition sampleGallery :: "Element list" where
  "sampleGallery =
     [\<lparr> dataLightbox = ''g'', dataZoom = None, sourceCount = 0, hasSrcset = False \<rparr>,
      \<lparr> dataLightbox = ''h'', dataZoom = None, sourceCount = 0, hasSrcset = False \<rparr>,
      \<lparr> dataLightbox = ''g'', dataZoom = Some 2, sourceCount = 2, hasSrcset = True \<rparr>,
      \<lparr> dataLightbox = [], dataZoom = None, sourceCount = 0, hasSrcset = False \<rparr>,
      \<lparr> dataLightbox = ''g'', dataZoom = None, sourceCount = 1, hasSrcset = False \<rparr>]"

section \<open>The invariant of the gallery scan\<close>

text \<open>
  The positions of the elements with gallery key \<open>g\<close>, in scan order; a chain of
  references, each pointing back to the one before and forward to the one after; and
  what holds after every element scanned: the references are as many as the elements,
  the keys of \<open>setupGalleryMap\<close> are distinct, a key is in the map exactly when it has
  members, with the first and the last member as head and tail, and the members of
  every key form a chain.
\<close>

definition members :: "string \<Rightarrow> Element list \<Rightarrow> nat list" where
  "members g els = filter (\<lambda>n. dataLightbox (els ! n) = g) [0..<length els]"

definition chained :: "ImageReference list \<Rightarrow> nat list \<Rightarrow> bool" where
  "chained refs ms =
     (ms = [] \<or> (map (\<lambda>n. previous (refs ! n)) ms = None # map Some (butlast ms)
                \<and> map (\<lambda>n. nextRef (refs ! n)) ms = map Some (tl ms) @ [None]))"

definition scanInv :: "Element list \<Rightarrow> ImageReference list \<times> (string \<times> nat \<times> nat) list \<Rightarrow> bool" where
  "scanInv els acc =
     (length (fst acc) = length els
      \<and> distinct (map fst (snd acc))
      \<and> (\<forall>key. case map_of (snd acc) key of
                  None \<Rightarrow> key = [] \<or> members key els = []
                | Some ht \<Rightarrow> key \<noteq> [] \<and> members key els \<noteq> []
                            \<and> fst ht = hd (members key els) \<and> snd ht = last (members key els))
      \<and> (\<forall>g. g = [] \<or> chained (fst acc) (members g els)))"

section \<open>Views of the state\<close>

text \<open>
  What a call leaves untouched is stated as the equality of a view of the state: the
  heap sizes and promises of the load pipeline; the front buffer and the lifecycle
  states; the front buffer, the mapping and the visible part of every buffer.
\<close>

definition loadView :: "sys \<Rightarrow> nat \<times> Race list \<times> promise list \<times> (nat \<times> nat) list \<times> nat option" where
  "loadView s =
     (length (buffers s), races s, loads s, swapChain (lightbox s), presentedImage (lightbox s))"

definition stateView :: "sys \<Rightarrow> nat \<times> BufferState list" where
  "stateView s = (frontBuffer (lightbox s), map state (buffers s))"

definition coreView ::
  "sys \<Rightarrow> nat \<times> (nat \<times> nat) list \<times> nat option \<times> LightboxState
     \<times> (BufferState \<times> string list \<times> bool \<times> bool \<times> bool \<times> nat option) list" where
  "coreView s =
     (frontBuffer (lightbox s), swapChain (lightbox s), presentedImage (lightbox s),
      lightboxState (lightbox s),
      map (\<lambda>x. (state x, className x, hiddenAttr x, attached x, isPreview x, hideTransition x))
        (buffers s))"


text \<open>
  The timer of the race \<open>t\<close> exists and has been cleared (\<open>window.clearTimeout(id)\<close> in
  \<open>promiseWithTimeout\<close>) or has fired.
\<close>

definition cleared :: "nat \<Rightarrow> sys \<Rightarrow> bool" where
  "cleared t s = (t < length (races s) \<and> \<not> raceTimer (races s ! t))"

section \<open>Unfolding the model\<close>

lemmas timing_defs =
  waitForTimeout_def elapse_def cancel_def resolve_def reject_def
  promiseWithTimeout_def raceTimerCallback_def raceSettled_def settle_def

lemmas state_defs =
  updBuffer_def updLightbox_def insertBuffer_def awaitRepaint_def awaitDelay_def
  awaitLoad_def logUnhandled_def createBuffer_def classListAdd_def classListRemove_def

lemmas swap_defs =
  swapCleanup_def swapFinal_def swapAfterRepaint_def swapFront_def bufferSwap_def wakeDelay_def

lemmas present_defs =
  bufferLoadPreview_def bufferLoadImage_def afterLoad_def presentAfterRace_def
  presentLoad_def lightboxPresentImage_def

lemmas handler_defs =
  bufferZoomIn_def bufferZoomOut_def closeFinish_def closeAfterZoom_def
  lightboxCloseHandler_def lightboxNextHandler_def lightboxPreviousHandler_def
  lightboxOpenHandler_def lightboxScrollHandler_def lightboxResizeHandler_def

lemmas init_defs = createLightbox_def setTail_def addImage_def init_def defaultOptions_def

lemmas model_defs =
  run_def timing_defs state_defs swap_defs present_defs handler_defs init_defs Let_def

lemmas sample_defs =
  sampleElement_def sampleEnv_def sampleStart_def sampleRect_def openFirst_def sampleOpen_def
  sampleClosingZoomed_def sampleLoading_def sampleRetargeted_def sampleOpenPlaceholder_def
  sampleHiding_def
  sampleReopened_def navigateWhileClosing_def

section \<open>The cancelable delay\<close>

lemma cancel_after_elapse_throws:
  "fst (cancel reason (elapse (waitForTimeout ms))) = Some TypeError"
  by (simp add: timing_defs Let_def)

text \<open>
  Claim C4, as the code has it. On the handle \<open>waitForTimeout ms\<close> returns, \<open>cancel()\<close>
  with no reason fulfils the completion at once; \<open>cancel(reason)\<close> with a truthy reason
  rejects it with that reason; after the delay has elapsed the completion is fulfilled
  and a later \<open>cancel\<close>, with or without a reason, leaves it as it is. (The call itself
  then ends in a TypeError, see \<open>cancel_after_elapse_throws\<close>: both inner functions are
  undefined by then.)
\<close>

theorem waitForTimeout_cancel:
  "promise (snd (cancel Undefined (waitForTimeout ms))) = Fulfilled
   \<and> (truthy reason \<longrightarrow> promise (snd (cancel reason (waitForTimeout ms))) = Rejected reason)
   \<and> promise (elapse (waitForTimeout ms)) = Fulfilled
   \<and> promise (snd (cancel reason (elapse (waitForTimeout ms)))) = promise (elapse (waitForTimeout ms))"
  by (simp add: timing_defs Let_def)

theorem waitForTimeout_cancel_witness:
  "truthy (JStr ''stop'')
   \<and> promise (snd (cancel (JStr ''stop'') (waitForTimeout 300))) = Rejected (JStr ''stop'')"
  using waitForTimeout_cancel [of 300 "JStr ''stop''"] by simp

text \<open>
  Claim C4 as stated fails for a reason that is falsy: \<open>cancel(0)\<close> passes the test
  \<open>if (reason)\<close> to the branch that resolves.
\<close>

theorem cancel_falsy_reason_counterexample:
  "promise (snd (cancel (JNum 0) (waitForTimeout 300))) \<noteq> Rejected (JNum 0)
   \<and> promise (snd (cancel (JNum 0) (waitForTimeout 300))) = Fulfilled"
  by (simp add: timing_defs Let_def)

section \<open>Frame lemmas\<close>

lemma map_update_same: "f v = f (xs ! i) \<Longrightarrow> map f (xs[i := v]) = map f xs"
  by (induction xs arbitrary: i) (auto split: nat.splits)

subsection \<open>What keeps the view of the load pipeline\<close>

lemma loadView_updBuffer [simp]: "loadView (updBuffer b f s) = loadView s"
  by (simp add: loadView_def updBuffer_def)

lemma loadView_updLightbox [simp]:
  "swapChain (f (lightbox s)) = swapChain (lightbox s) \<Longrightarrow>
   presentedImage (f (lightbox s)) = presentedImage (lightbox s) \<Longrightarrow>
   loadView (updLightbox f s) = loadView s"
  by (simp add: loadView_def updLightbox_def)

lemma loadView_simps [simp]:
  "loadView (awaitRepaint fs s) = loadView s"
  "loadView (awaitDelay ms fs s) = loadView s"
  "loadView (logUnhandled who e s) = loadView s"
  "loadView (hiddenImages_update h s) = loadView s"
  "loadView (bodyOverflowHidden_update g s) = loadView s"
  "loadView (tasks_update tf s) = loadView s"
  "loadView (delays_update df s) = loadView s"
  "loadView (anchorScrollPosition_update af s) = loadView s"
  by (simp_all add: loadView_def awaitRepaint_def awaitDelay_def logUnhandled_def)

lemma returnTo_loadView [simp]: "loadView (returnTo k r s) = loadView s"
  by (induction k r s rule: returnTo.induct) (auto simp: Let_def split: option.splits)

lemma swapCleanup_loadView [simp]: "loadView (swapCleanup bk s) = loadView s"
  by (simp add: swapCleanup_def Let_def)

lemma closeFinish_loadView [simp]: "loadView (closeFinish cfg k s) = loadView s"
  by (simp add: closeFinish_def Let_def split: option.splits)

lemma closeAfterZoom_loadView [simp]: "loadView (closeAfterZoom cfg k s) = loadView s"
  by (simp add: closeAfterZoom_def Let_def split: option.splits)

lemma resumeDelay_loadView [simp]: "loadView (resumeDelay cfg fs s) = loadView s"
  by (induction cfg fs s rule: resumeDelay.induct) simp_all

lemma foldl_resumeDelay_loadView:
  "loadView (foldl (\<lambda>s' task. resumeDelay cfg (snd task) s') s ws) = loadView s"
  by (induction ws arbitrary: s) simp_all

lemma wakeDelay_loadView [simp]: "loadView (wakeDelay cfg t s) = loadView s"
  by (simp add: wakeDelay_def foldl_resumeDelay_loadView)

lemma swapFinal_loadView [simp]: "loadView (swapFinal cfg b bk s) = loadView s"
  by (simp add: swapFinal_def)

lemma swapFront_loadView [simp]: "loadView (swapFront cfg b bk woken k s) = loadView s"
  by (simp add: swapFront_def Let_def split: option.splits)

lemma bufferSwap_loadView [simp]: "loadView (bufferSwap cfg b k s) = loadView s"
  by (simp add: bufferSwap_def Let_def split: option.splits prod.splits)

lemma afterLoad_loadView [simp]: "loadView (afterLoad cfg img ib s) = loadView s"
  by (simp add: afterLoad_def)

subsection \<open>What keeps the front buffer and the lifecycle states\<close>

lemma stateView_updBuffer [simp]:
  "state (f (buffers s ! b)) = state (buffers s ! b) \<Longrightarrow> stateView (updBuffer b f s) = stateView s"
  by (simp add: stateView_def updBuffer_def map_update_same)

lemma stateView_updLightbox [simp]:
  "frontBuffer (f (lightbox s)) = frontBuffer (lightbox s) \<Longrightarrow> stateView (updLightbox f s) = stateView s"
  by (simp add: stateView_def updLightbox_def)

lemma stateView_simps [simp]:
  "stateView (awaitRepaint fs s) = stateView s"
  "stateView (awaitDelay ms fs s) = stateView s"
  "stateView (logUnhandled who e s) = stateView s"
  "stateView (hiddenImages_update h s) = stateView s"
  "stateView (bodyOverflowHidden_update g s) = stateView s"
  "stateView (tasks_update tf s) = stateView s"
  "stateView (delays_update df s) = stateView s"
  by (simp_all add: stateView_def awaitRepaint_def awaitDelay_def logUnhandled_def)

lemma returnTo_stateView [simp]: "stateView (returnTo k r s) = stateView s"
  by (induction k r s rule: returnTo.induct) (auto simp: Let_def split: option.splits)

lemma swapCleanup_stateView [simp]: "stateView (swapCleanup bk s) = stateView s"
  by (simp add: swapCleanup_def Let_def)

lemma closeFinish_stateView [simp]: "stateView (closeFinish cfg k s) = stateView s"
  by (simp add: closeFinish_def Let_def split: option.splits)

lemma closeAfterZoom_stateView [simp]: "stateView (closeAfterZoom cfg k s) = stateView s"
  by (simp add: closeAfterZoom_def Let_def split: option.splits)

lemma resumeDelay_stateView [simp]: "stateView (resumeDelay cfg fs s) = stateView s"
  by (induction cfg fs s rule: resumeDelay.induct) simp_all

lemma foldl_resumeDelay_stateView:
  "stateView (foldl (\<lambda>s' task. resumeDelay cfg (snd task) s') s ws) = stateView s"
  by (induction ws arbitrary: s) simp_all

lemma wakeDelay_stateView [simp]: "stateView (wakeDelay cfg t s) = stateView s"
  by (simp add: wakeDelay_def foldl_resumeDelay_stateView)

subsection \<open>What keeps the visible part of every buffer\<close>

lemma coreView_updBuffer [simp]:
  "(let x = buffers s ! b in
      state (f x) = state x \<and> className (f x) = className x \<and> hiddenAttr (f x) = hiddenAttr x
      \<and> attached (f x) = attached x \<and> isPreview (f x) = isPreview x
      \<and> hideTransition (f x) = hideTransition x)
   \<Longrightarrow> coreView (updBuffer b f s) = coreView s"
  by (simp add: coreView_def updBuffer_def map_update_same Let_def)

lemma coreView_updLightbox [simp]:
  "frontBuffer (f (lightbox s)) = frontBuffer (lightbox s) \<Longrightarrow>
   swapChain (f (lightbox s)) = swapChain (lightbox s) \<Longrightarrow>
   presentedImage (f (lightbox s)) = presentedImage (lightbox s) \<Longrightarrow>
   lightboxState (f (lightbox s)) = lightboxState (lightbox s) \<Longrightarrow>
   coreView (updLightbox f s) = coreView s"
  by (simp add: coreView_def updLightbox_def)

lemma coreView_simps [simp]:
  "coreView (awaitRepaint fs s) = coreView s"
  "coreView (logUnhandled who e s) = coreView s"
  "coreView (hiddenImages_update h s) = coreView s"
  "coreView (tasks_update tf s) = coreView s"
  "coreView (races_update rf s) = coreView s"
  "coreView (loads_update lf s) = coreView s"
  by (simp_all add: coreView_def awaitRepaint_def logUnhandled_def)

lemma returnTo_coreView [simp]: "coreView (returnTo k r s) = coreView s"
  by (induction k r s rule: returnTo.induct) (auto simp: Let_def split: option.splits)

lemma coreView_nth:
  assumes "coreView s' = coreView s" and "i < length (buffers s)"
  shows "state (buffers s' ! i) = state (buffers s ! i)"
    and "className (buffers s' ! i) = className (buffers s ! i)"
    and "hiddenAttr (buffers s' ! i) = hiddenAttr (buffers s ! i)"
    and "attached (buffers s' ! i) = attached (buffers s ! i)"
    and "isPreview (buffers s' ! i) = isPreview (buffers s ! i)"
proof -
  let ?f = "\<lambda>x. (state x, className x, hiddenAttr x, attached x, isPreview x, hideTransition x)"
  have m: "map ?f (buffers s') = map ?f (buffers s)"
    using assms(1) by (simp add: coreView_def)
  have len: "length (buffers s') = length (buffers s)"
    using arg_cong [OF m, of length] by simp
  have "map ?f (buffers s') ! i = map ?f (buffers s) ! i"
    using m by simp
  then have "?f (buffers s' ! i) = ?f (buffers s ! i)"
    using len assms(2) by simp
  then show "state (buffers s' ! i) = state (buffers s ! i)"
    and "className (buffers s' ! i) = className (buffers s ! i)"
    and "hiddenAttr (buffers s' ! i) = hiddenAttr (buffers s ! i)"
    and "attached (buffers s' ! i) = attached (buffers s ! i)"
    and "isPreview (buffers s' ! i) = isPreview (buffers s ! i)"
    by simp_all
qed

lemma coreView_lightbox:
  assumes "coreView s' = coreView s"
  shows "frontBuffer (lightbox s') = frontBuffer (lightbox s)"
    and "swapChain (lightbox s') = swapChain (lightbox s)"
    and "presentedImage (lightbox s') = presentedImage (lightbox s)"
    and "length (buffers s') = length (buffers s)"
proof -
  show "frontBuffer (lightbox s') = frontBuffer (lightbox s)"
    and "swapChain (lightbox s') = swapChain (lightbox s)"
    and "presentedImage (lightbox s') = presentedImage (lightbox s)"
    using assms by (simp_all add: coreView_def)
  have "map (\<lambda>x. (state x, className x, hiddenAttr x, attached x, isPreview x, hideTransition x)) (buffers s')
      = map (\<lambda>x. (state x, className x, hiddenAttr x, attached x, isPreview x, hideTransition x)) (buffers s)"
    using assms by (simp add: coreView_def)
  from arg_cong [OF this, of length] show "length (buffers s') = length (buffers s)" by simp
qed

lemma stateView_nth:
  assumes "stateView s' = stateView s" and "i < length (buffers s)"
  shows "state (buffers s' ! i) = state (buffers s ! i)"
    and "frontBuffer (lightbox s') = frontBuffer (lightbox s)"
proof -
  have m: "map state (buffers s') = map state (buffers s)"
    using assms(1) by (simp add: stateView_def)
  have len: "length (buffers s') = length (buffers s)"
    using arg_cong [OF m, of length] by simp
  have "map state (buffers s') ! i = map state (buffers s) ! i"
    using m by simp
  then show "state (buffers s' ! i) = state (buffers s ! i)"
    using len assms(2) by simp
  show "frontBuffer (lightbox s') = frontBuffer (lightbox s)"
    using assms(1) by (simp add: stateView_def)
qed

section \<open>The zoom guards and the pan transform\<close>

text \<open>
  Claim C7, as the code has it. \<open>bufferZoomIn\<close> returns the state unchanged (every
  field of every buffer, classes, cursor, transform and pan handler included) when the
  session is not open or the buffer is already zoomed. \<open>bufferZoomOut\<close> returns the
  state unchanged when the buffer is not zoomed; it does not look at the session.
\<close>

theorem zoom_noop_guards:
  "(lightboxState (lightbox s) \<noteq> Open \<or> isZoomed (buffers s ! b) \<longrightarrow> bufferZoomIn cfg rect b s = s)
   \<and> (\<not> isZoomed (buffers s ! b) \<longrightarrow> bufferZoomOut cfg b s = s)"
  by (simp add: bufferZoomIn_def bufferZoomOut_def)

theorem zoom_noop_guards_witness:
  "lightboxState (lightbox sampleStart) \<noteq> Open
   \<and> bufferZoomIn defaultOptions sampleRect 0 sampleStart = sampleStart
   \<and> \<not> isZoomed (buffers sampleStart ! 0)
   \<and> bufferZoomOut defaultOptions 0 sampleStart = sampleStart"
  using zoom_noop_guards [of sampleStart 0 defaultOptions sampleRect]
  by (simp add: sample_defs model_defs)

text \<open>
  Claim C7 as stated fails for \<open>bufferZoomOut\<close>: in the state in which
  \<open>lightboxCloseHandler\<close> calls it (session closing, front buffer zoomed) it zooms out.
\<close>

theorem zoom_out_while_closing_counterexample:
  "lightboxState (lightbox sampleClosingZoomed) \<noteq> Open
   \<and> isZoomed (buffers sampleClosingZoomed ! 1)
   \<and> \<not> isZoomed (buffers (bufferZoomOut defaultOptions 1 sampleClosingZoomed) ! 1)
   \<and> bufferZoomOut defaultOptions 1 sampleClosingZoomed \<noteq> sampleClosingZoomed"
proof -
  have a: "lightboxState (lightbox sampleClosingZoomed) \<noteq> Open"
    and b: "isZoomed (buffers sampleClosingZoomed ! 1)"
    and c: "\<not> isZoomed (buffers (bufferZoomOut defaultOptions 1 sampleClosingZoomed) ! 1)"
    by (simp_all add: sample_defs model_defs)
  from b c have "bufferZoomOut defaultOptions 1 sampleClosingZoomed \<noteq> sampleClosingZoomed"
    by auto
  with a b c show ?thesis by simp
qed







section \<open>The load pipeline and the swap chain\<close>

lemma foldl_race_coreView:
  "coreView (foldl (\<lambda>s' task. loadReaction cfg None task s') s
      (map (\<lambda>(t, k). (WaitRace l t, PresentRace a ba # k)) rs)) = coreView s"
  by (induction rs arbitrary: s) (auto simp: presentAfterRace_def)

text \<open>
  Claim C1. Let the session target be \<open>b\<close> when the full load \<open>l\<close> of another reference
  \<open>a\<close> is fulfilled, the callback chained to that load (with \<open>a\<close>'s buffer \<open>ba\<close>) being
  still registered, as it is when \<open>present(b)\<close> came after \<open>present(a)\<close> and before the
  load settled; the calls of \<open>present(a)\<close> that still wait for the race are resumed in
  the same task. Then no exchange takes place: the front buffer and the swap chain
  mapping are as before, no other buffer changes its lifecycle state, and \<open>a\<close>'s buffer
  is Inactive, has no classes, carries the hidden attribute and is attached as before.
\<close>

theorem stale_continuation:
  assumes "presentedImage (lightbox s) = Some b" and "a \<noteq> b"
    and "l < length (loads s)" and "loads s ! l = Pending" and "ba < length (buffers s)"
    and "filter (\<lambda>task. waitsForLoad l (fst task)) (tasks s)
           = (WaitLoad l, [AfterLoad a ba]) # map (\<lambda>(t, k). (WaitRace l t, PresentRace a ba # k)) rs"
  shows "frontBuffer (lightbox (step env (LoadSettled l None) s)) = frontBuffer (lightbox s)
     \<and> swapChain (lightbox (step env (LoadSettled l None) s)) = swapChain (lightbox s)
     \<and> state (buffers (step env (LoadSettled l None) s) ! ba) = Inactive
     \<and> className (buffers (step env (LoadSettled l None) s) ! ba) = []
     \<and> hiddenAttr (buffers (step env (LoadSettled l None) s) ! ba)
     \<and> attached (buffers (step env (LoadSettled l None) s) ! ba) = attached (buffers s ! ba)
     \<and> (\<forall>i < length (buffers s). i \<noteq> ba \<longrightarrow>
           state (buffers (step env (LoadSettled l None) s) ! i) = state (buffers s ! i))"
proof -
  let ?s0 = "s \<lparr> loads := (loads s)[l := settle None],
                  tasks := filter (\<lambda>task. \<not> waitsForLoad l (fst task)) (tasks s) \<rparr>"
  let ?s1 = "updBuffer ba (\<lambda>x. x \<lparr> state := Inactive, className := [], hiddenAttr := True \<rparr>) ?s0"
  let ?s' = "step env (LoadSettled l None) s"
  have first: "loadReaction (config env) None (WaitLoad l, [AfterLoad a ba]) ?s0 = ?s1"
    using assms(1,2) by (simp add: afterLoad_def)
  have "?s' = foldl (\<lambda>s' task. loadReaction (config env) None task s') ?s1
                (map (\<lambda>(t, k). (WaitRace l t, PresentRace a ba # k)) rs)"
    using assms(3,4,6) first by simp
  then have cv: "coreView ?s' = coreView ?s1"
    by (simp add: foldl_race_coreView)
  have len: "length (buffers ?s1) = length (buffers s)"
    by (simp add: updBuffer_def)
  have ba: "ba < length (buffers ?s1)" using assms(5) len by simp
  have s1: "frontBuffer (lightbox ?s1) = frontBuffer (lightbox s)"
    "swapChain (lightbox ?s1) = swapChain (lightbox s)"
    "state (buffers ?s1 ! ba) = Inactive" "className (buffers ?s1 ! ba) = []"
    "hiddenAttr (buffers ?s1 ! ba)" "attached (buffers ?s1 ! ba) = attached (buffers s ! ba)"
    using assms(5) by (simp_all add: updBuffer_def)
  have other: "state (buffers ?s1 ! i) = state (buffers s ! i)" if "i \<noteq> ba" for i
    using that by (simp add: updBuffer_def)
  have "state (buffers ?s' ! i) = state (buffers s ! i)" if "i < length (buffers s)" "i \<noteq> ba" for i
    using coreView_nth(1) [OF cv, of i] that len other by simp
  then show ?thesis
    using coreView_lightbox(1,2) [OF cv] coreView_nth(1-4) [OF cv ba] s1 by simp
qed

theorem stale_continuation_witness:
  "presentedImage (lightbox sampleRetargeted) = Some 1
   \<and> loads sampleRetargeted ! 0 = Pending
   \<and> state (buffers sampleRetargeted ! 1) = Loading
   \<and> state (buffers (step sampleEnv (LoadSettled 0 None) sampleRetargeted) ! 1) = Inactive
   \<and> className (buffers (step sampleEnv (LoadSettled 0 None) sampleRetargeted) ! 1) = []
   \<and> hiddenAttr (buffers (step sampleEnv (LoadSettled 0 None) sampleRetargeted) ! 1)
   \<and> attached (buffers (step sampleEnv (LoadSettled 0 None) sampleRetargeted) ! 1)
   \<and> frontBuffer (lightbox (step sampleEnv (LoadSettled 0 None) sampleRetargeted)) = 0
   \<and> swapChain (lightbox (step sampleEnv (LoadSettled 0 None) sampleRetargeted)) = [(0, 1), (1, 2)]"
proof -
  have h: "presentedImage (lightbox sampleRetargeted) = Some 1" "(0::nat) \<noteq> 1"
    "0 < length (loads sampleRetargeted)" "loads sampleRetargeted ! 0 = Pending"
    "1 < length (buffers sampleRetargeted)"
    "filter (\<lambda>task. waitsForLoad 0 (fst task)) (tasks sampleRetargeted)
       = (WaitLoad 0, [AfterLoad 0 1])
         # map (\<lambda>(t, k). (WaitRace 0 t, PresentRace 0 1 # k)) [(0, [OpenAwaitPresent])]"
    by (simp_all add: sample_defs model_defs)
  have v: "state (buffers sampleRetargeted ! 1) = Loading" "attached (buffers sampleRetargeted ! 1)"
    "frontBuffer (lightbox sampleRetargeted) = 0"
    "swapChain (lightbox sampleRetargeted) = [(0, 1), (1, 2)]"
    by (simp_all add: sample_defs model_defs)
  have "frontBuffer (lightbox (step sampleEnv (LoadSettled 0 None) sampleRetargeted)) = 0
     \<and> swapChain (lightbox (step sampleEnv (LoadSettled 0 None) sampleRetargeted)) = [(0, 1), (1, 2)]
     \<and> state (buffers (step sampleEnv (LoadSettled 0 None) sampleRetargeted) ! 1) = Inactive
     \<and> className (buffers (step sampleEnv (LoadSettled 0 None) sampleRetargeted) ! 1) = []
     \<and> hiddenAttr (buffers (step sampleEnv (LoadSettled 0 None) sampleRetargeted) ! 1)
     \<and> attached (buffers (step sampleEnv (LoadSettled 0 None) sampleRetargeted) ! 1)"
    using stale_continuation [OF h, of sampleEnv] v(2-4) by metis
  with h(1,4) v(1) show ?thesis by blast
qed

lemma loadView_fields:
  assumes "loadView s' = loadView s"
  shows "length (buffers s') = length (buffers s)" and "races s' = races s" and "loads s' = loads s"
  using assms by (simp_all add: loadView_def)

lemma loadView_races_update [simp]:
  "loadView (races_update f s) = (length (buffers s), f (races s), loads s, swapChain (lightbox s), presentedImage (lightbox s))"
  by (simp add: loadView_def)

subsection \<open>A cleared timer stays cleared\<close>

text \<open>
  No call of the lightbox sets a timer again: once the timer of a race is cleared, it
  is cleared in every later state, and its firing is no event of the program any more.
\<close>

lemma cleared_loadView: "loadView s' = loadView s \<Longrightarrow> cleared t s' = cleared t s"
  by (simp add: cleared_def loadView_def)

lemma cleared_simps [simp]:
  "cleared t (updBuffer b f s) = cleared t s"
  "cleared t (updLightbox g s) = cleared t s"
  "cleared t (awaitRepaint fs s) = cleared t s"
  "cleared t (awaitDelay ms fs s) = cleared t s"
  "cleared t (awaitLoad fs s) = cleared t s"
  "cleared t (logUnhandled who e s) = cleared t s"
  "cleared t (snd (insertBuffer x s)) = cleared t s"
  "cleared t (hiddenImages_update h s) = cleared t s"
  "cleared t (bodyOverflowHidden_update bf s) = cleared t s"
  "cleared t (tasks_update tf s) = cleared t s"
  "cleared t (delays_update df s) = cleared t s"
  "cleared t (loads_update lf s) = cleared t s"
  "cleared t (anchorScrollPosition_update af s) = cleared t s"
  by (simp_all add: cleared_def state_defs)

lemma races_kept [simp]:
  "races (returnTo k r s) = races s"
  "races (wakeDelay cfg d s) = races s"
  "races (resumeDelay cfg fs s) = races s"
  "races (bufferSwap cfg b k s) = races s"
  "races (afterLoad cfg img ib s) = races s"
  "races (closeAfterZoom cfg k s) = races s"
  "races (closeFinish cfg k s) = races s"
  by (rule loadView_fields(2), simp)+

lemma cleared_same [simp]:
  "cleared t (returnTo k r s) = cleared t s"
  "cleared t (wakeDelay cfg d s) = cleared t s"
  "cleared t (resumeDelay cfg fs s) = cleared t s"
  "cleared t (bufferSwap cfg b k s) = cleared t s"
  "cleared t (afterLoad cfg img ib s) = cleared t s"
  "cleared t (closeAfterZoom cfg k s) = cleared t s"
  "cleared t (closeFinish cfg k s) = cleared t s"
  by (simp_all add: cleared_def)

lemma cleared_append: "cleared t s \<Longrightarrow> cleared t (s \<lparr> races := races s @ xs \<rparr>)"
  by (simp add: cleared_def nth_append)

lemma cleared_settled:
  "cleared t s \<Longrightarrow> cleared t (s \<lparr> races := (races s)[u := raceSettled r (races s ! u)] \<rparr>)"
  by (cases "u = t") (auto simp: cleared_def raceSettled_def split: option.splits)

lemma cleared_callback:
  "cleared t s \<Longrightarrow> cleared t (s \<lparr> races := (races s)[u := raceTimerCallback (races s ! u)] \<rparr>)"
  by (cases "u = t") (auto simp: cleared_def raceTimerCallback_def)

lemma cleared_zoom [simp]:
  "cleared t (bufferZoomIn cfg rect b s) = cleared t s"
  "cleared t (bufferZoomOut cfg b s) = cleared t s"
  "cleared t (panMove env b e s) = cleared t s"
  by (simp_all add: bufferZoomIn_def bufferZoomOut_def panMove_def Let_def split: option.splits)

lemma cleared_close [simp]: "cleared t (lightboxCloseHandler cfg s) = cleared t s"
  by (simp add: lightboxCloseHandler_def Let_def)

lemma cleared_buffers [simp]:
  "cleared t (buffers_update f s) = cleared t s"
  "cleared t (lightbox_update g s) = cleared t s"
  "cleared t (repaints_update h s) = cleared t s"
  by (simp_all add: cleared_def)

lemma cleared_presentAfterRace [simp]:
  "cleared t (presentAfterRace cfg img ib r k s) = cleared t s"
  by (simp add: presentAfterRace_def insertBuffer_def split: option.splits)

lemma cleared_presentLoad: "cleared t s \<Longrightarrow> cleared t (presentLoad cfg img ib l k s)"
  by (cases "loads s ! l") (simp_all add: presentLoad_def cleared_append)

lemma cleared_present: "cleared t s \<Longrightarrow> cleared t (lightboxPresentImage env img k s)"
proof (cases "map_of (swapChain (lightbox s)) img")
  case None
  assume "cleared t s"
  then show ?thesis using None by (simp add: lightboxPresentImage_def Let_def insertBuffer_def)
next
  case (Some rb)
  assume c: "cleared t s"
  show ?thesis
  proof (cases "state (buffers s ! rb) = Loading")
    case True
    then show ?thesis
      using Some c by (simp add: lightboxPresentImage_def Let_def insertBuffer_def updLightbox_def)
  next
    case False
    let ?s1 = "updLightbox (\<lambda>l. l \<lparr> presentedImage := Some img \<rparr>) s"
    let ?s2 = "?s1 \<lparr> loads := loads ?s1 @ [if decodeInHTMLImageElement env then Pending else Fulfilled] \<rparr>"
    have eq: "lightboxPresentImage env img k s
        = presentLoad (config env) img rb (length (loads ?s1)) k ?s2"
      using Some False by (simp add: lightboxPresentImage_def Let_def updLightbox_def)
    have "cleared t ?s2" using c by simp
    then show ?thesis unfolding eq by (rule cleared_presentLoad)
  qed
qed

lemma cleared_swapAfterRepaint [simp]: "cleared t (swapAfterRepaint cfg b bk k s) = cleared t s"
  by (simp add: swapAfterRepaint_def swapFinal_def Let_def)

lemma cleared_resumeRepaint: "cleared t s \<Longrightarrow> cleared t (resumeRepaint env fs s)"
  by (induction env fs s rule: resumeRepaint.induct)
     (auto simp: Let_def bufferLoadPreview_def bufferLoadImage_def intro!: cleared_presentLoad
           split: option.splits)

lemma cleared_resumeLoad: "cleared t s \<Longrightarrow> cleared t (resumeLoad cfg r fs s)"
  by (induction cfg r fs s rule: resumeLoad.induct) (auto split: option.splits)

lemma cleared_loadReaction: "cleared t s \<Longrightarrow> cleared t (loadReaction cfg r task s)"
  by (induction cfg r task s rule: loadReaction.induct)
     (auto intro!: cleared_resumeLoad cleared_settled)

lemma cleared_foldl:
  assumes "\<And>s' x. cleared t s' \<Longrightarrow> cleared t (f s' x)"
  shows "cleared t s \<Longrightarrow> cleared t (foldl f s xs)"
  by (induction xs arbitrary: s) (simp_all add: assms)

lemma cleared_handlers:
  assumes "cleared t s"
  shows "cleared t (lightboxNextHandler env s)"
    and "cleared t (lightboxPreviousHandler env s)"
    and "cleared t (lightboxOpenHandler env i s)"
    and "cleared t (lightboxScrollHandler cfg x y s)"
    and "cleared t (lightboxResizeHandler cfg s)"
  using assms
  by (auto simp: lightboxNextHandler_def lightboxPreviousHandler_def lightboxOpenHandler_def
        lightboxScrollHandler_def lightboxResizeHandler_def Let_def
        intro!: cleared_present split: option.splits)

lemma cleared_step: "cleared t s \<Longrightarrow> cleared t (step env e s)"
proof (cases e)
  case (Repainted n)
  assume "cleared t s"
  then show ?thesis
    unfolding Repainted by (auto intro!: cleared_foldl cleared_resumeRepaint)
next
  case (DelayElapsed d)
  assume "cleared t s"
  then show ?thesis unfolding DelayElapsed by simp
next
  case (RaceTimeout u)
  assume c: "cleared t s"
  have "cleared t (s \<lparr> races := (races s)[u := raceTimerCallback (races s ! u)],
                       tasks := filter (\<lambda>task. \<not> waitsForRace u (fst task)) (tasks s) \<rparr>)"
    using cleared_callback [OF c, of u] by (simp add: cleared_def)
  then show ?thesis
    unfolding RaceTimeout using c by (auto intro!: cleared_foldl cleared_resumeLoad)
next
  case (LoadSettled l r)
  assume c: "cleared t s"
  have "cleared t (s \<lparr> loads := (loads s)[l := settle r],
                       tasks := filter (\<lambda>task. \<not> waitsForLoad l (fst task)) (tasks s) \<rparr>)"
    using c by (simp add: cleared_def)
  then show ?thesis
    unfolding LoadSettled using c by (auto intro!: cleared_foldl cleared_loadReaction)
qed (auto simp: cleared_handlers)

lemma cleared_run: "cleared t s \<Longrightarrow> cleared t (run env evs s)"
  unfolding run_def by (rule cleared_foldl) (rule cleared_step)

lemma cleared_timeout_noop: "cleared t s \<Longrightarrow> step env (RaceTimeout t) s = s"
  by (simp add: cleared_def)

text \<open>
  An image whose buffer is already loaded, where \<open>decode\<close> is not used: the load is
  \<open>Promise.resolve()\<close>, so the race is settled before any timer can fire. The call
  creates no buffer and its timer is cleared.
\<close>

lemma present_loaded_image:
  assumes "map_of (swapChain (lightbox s)) r = Some rb" and "state (buffers s ! rb) \<noteq> Loading"
    and "\<not> decodeInHTMLImageElement env"
  shows "length (buffers (lightboxPresentImage env r k s)) = length (buffers s)"
    and "races (lightboxPresentImage env r k s)
           = races s @ [\<lparr> racePromise = Fulfilled, raceTimer = False \<rparr>]"
proof -
  let ?s1 = "updLightbox (\<lambda>l. l \<lparr> presentedImage := Some r \<rparr>) s"
  let ?s2 = "?s1 \<lparr> loads := loads ?s1 @ [Fulfilled] \<rparr>"
  let ?s3 = "?s2 \<lparr> races := races ?s2 @ [raceSettled None promiseWithTimeout] \<rparr>"
  have "lightboxPresentImage env r k s = presentLoad (config env) r rb (length (loads ?s1)) k ?s2"
    using assms by (simp add: lightboxPresentImage_def Let_def updLightbox_def)
  also have "\<dots> = returnTo k None (afterLoad (config env) r rb ?s3)"
    by (simp add: presentLoad_def presentAfterRace_def updLightbox_def)
  finally have eq: "lightboxPresentImage env r k s = returnTo k None (afterLoad (config env) r rb ?s3)" .
  have "loadView (lightboxPresentImage env r k s) = loadView ?s3"
    unfolding eq by simp
  then show "length (buffers (lightboxPresentImage env r k s)) = length (buffers s)"
    and "races (lightboxPresentImage env r k s)
           = races s @ [\<lparr> racePromise = Fulfilled, raceTimer = False \<rparr>]"
    by (simp_all add: loadView_def updLightbox_def raceSettled_def promiseWithTimeout_def resolve_def)
qed

text \<open>
  Claim C2. Let a call of \<open>present(r)\<close> wait for the race of its full load \<open>l\<close> against
  the timer \<open>t\<close>, and let the load settle (fulfilled, or rejected with anything but a
  TimeoutError) while the timer has not fired. Then the task of that event creates no
  buffer, and after whatever events follow, the timer is cleared and its firing changes
  nothing: the branch that builds a preview is never entered for this call.
\<close>

theorem full_load_wins:
  assumes "l < length (loads s)" and "loads s ! l = Pending" and "t < length (races s)"
    and "filter (\<lambda>task. waitsForLoad l (fst task)) (tasks s)
           = [(WaitLoad l, [AfterLoad r ib]), (WaitRace l t, PresentRace r ib # k)]"
    and "outcome \<noteq> Some (JErr TimeoutError)"
  shows "length (buffers (step env (LoadSettled l outcome) s)) = length (buffers s)
     \<and> (\<forall>evs. \<not> raceTimer (races (run env evs (step env (LoadSettled l outcome) s)) ! t)
           \<and> step env (RaceTimeout t) (run env evs (step env (LoadSettled l outcome) s))
               = run env evs (step env (LoadSettled l outcome) s))"
proof -
  let ?s0 = "s \<lparr> loads := (loads s)[l := settle outcome],
                  tasks := filter (\<lambda>task. \<not> waitsForLoad l (fst task)) (tasks s) \<rparr>"
  let ?s1 = "resumeLoad (config env) outcome [AfterLoad r ib] ?s0"
  let ?s2 = "?s1 \<lparr> races := (races ?s1)[t := raceSettled outcome (races ?s1 ! t)] \<rparr>"
  let ?s' = "step env (LoadSettled l outcome) s"
  have v1: "loadView ?s1 = loadView ?s0"
    by (cases outcome) simp_all
  have "?s' = presentAfterRace (config env) r ib outcome k ?s2"
    using assms(1,2,4) by simp
  also have "\<dots> = returnTo k outcome ?s2"
    using assms(5) by (cases outcome) (simp_all add: presentAfterRace_def)
  finally have s': "?s' = returnTo k outcome ?s2" .
  then have "loadView ?s' = loadView ?s2" by simp
  then have len: "length (buffers ?s') = length (buffers ?s1)" and rc: "races ?s' = races ?s2"
    by (simp_all add: loadView_def)
  have len1: "length (buffers ?s1) = length (buffers s)" and rc1: "races ?s1 = races s"
    using v1 by (simp_all add: loadView_def)
  have "cleared t ?s'"
    unfolding cleared_def using rc rc1 assms(3) by (cases outcome) (simp_all add: raceSettled_def)
  then have "cleared t (run env evs ?s')" for evs
    by (rule cleared_run)
  then have "\<not> raceTimer (races (run env evs ?s') ! t)
      \<and> step env (RaceTimeout t) (run env evs ?s') = run env evs ?s'" for evs
    using cleared_timeout_noop [of t "run env evs ?s'" env] by (simp add: cleared_def)
  then show ?thesis using len len1 by simp
qed

theorem full_load_wins_witness:
  "loads sampleLoading ! 0 = Pending
   \<and> raceTimer (races sampleLoading ! 0)
   \<and> length (buffers sampleLoading) = 2
   \<and> length (buffers (step sampleEnv (LoadSettled 0 None) sampleLoading)) = 2
   \<and> \<not> raceTimer (races (run sampleEnv [Repainted 2, ClickNext]
                           (step sampleEnv (LoadSettled 0 None) sampleLoading)) ! 0)
   \<and> step sampleEnv (RaceTimeout 0)
         (run sampleEnv [Repainted 2, ClickNext] (step sampleEnv (LoadSettled 0 None) sampleLoading))
       = run sampleEnv [Repainted 2, ClickNext] (step sampleEnv (LoadSettled 0 None) sampleLoading)"
proof -
  have h: "0 < length (loads sampleLoading)" "loads sampleLoading ! 0 = Pending"
    "0 < length (races sampleLoading)"
    "filter (\<lambda>task. waitsForLoad 0 (fst task)) (tasks sampleLoading)
       = [(WaitLoad 0, [AfterLoad 0 1]), (WaitRace 0 0, PresentRace 0 1 # [OpenAwaitPresent])]"
    "(None :: js_value option) \<noteq> Some (JErr TimeoutError)"
    by (simp_all add: sample_defs model_defs)
  have v: "raceTimer (races sampleLoading ! 0)" "length (buffers sampleLoading) = 2"
    by (simp_all add: sample_defs model_defs)
  from full_load_wins [OF h, of sampleEnv] h(2) v show ?thesis by metis
qed




subsection \<open>The demoted buffer and its hide timer\<close>

text \<open>
  A swap with a transition ends its synchronous part at a render sync; the render sync
  of that swap starts the hide timer of the back buffer and leaves the cleanup waiting
  for it; the event of that timer runs the cleanup, which removes the wrapper of a
  back buffer that is Inactive and a preview.
\<close>

lemma filter_fresh:
  assumes "\<forall>task\<in>set ts. fst task \<noteq> w"
  shows "filter (\<lambda>task. fst task = w) ts = []" and "filter (\<lambda>task. fst task \<noteq> w) ts = ts"
  using assms by (induction ts) auto

lemma swapCleanup_preview:
  assumes "p < length (buffers s)" and "state (buffers s ! p) = Inactive" and "isPreview (buffers s ! p)"
  shows "\<not> attached (buffers (swapCleanup p s) ! p)"
    and "hiddenAttr (buffers (swapCleanup p s) ! p) = hiddenAttr (buffers s ! p)"
    and "length (buffers (swapCleanup p s)) = length (buffers s)"
  using assms by (simp_all add: swapCleanup_def updBuffer_def Let_def)

lemma swap_with_transition:
  assumes "frontBuffer (lightbox s) = p" and "p < length (buffers s)" and "b < length (buffers s)"
    and "b \<noteq> p" and "state (buffers s ! b) \<noteq> Active"
    and "lightboxState (lightbox s) = Open" and "bufferTransitionDuration s \<noteq> 0"
    and "attached (buffers s ! b)" and "hideTransition (buffers s ! b) = None"
  shows "tasks (bufferSwap cfg b k s) = tasks s @ [(WaitRepaint (repaints s), SwapAwaitRepaint b p # k)]"
    and "delays (bufferSwap cfg b k s) = delays s"
    and "bufferTransitionDuration (bufferSwap cfg b k s) = bufferTransitionDuration s"
    and "length (buffers (bufferSwap cfg b k s)) = length (buffers s)"
    and "buffers (bufferSwap cfg b k s) ! p
           = (buffers s ! p) \<lparr> state := Inactive, className := [bufferClassActive cfg] \<rparr>"
  using assms
  by (simp_all add: bufferSwap_def swapFront_def awaitRepaint_def Let_def updBuffer_def updLightbox_def)

lemma swap_render_sync:
  assumes "filter (\<lambda>task. fst task = WaitRepaint n) (tasks s) = [(WaitRepaint n, SwapAwaitRepaint b p # k)]"
    and "p < length (buffers s)" and "b \<noteq> p"
  shows "tasks (step env (Repainted n) s)
           = filter (\<lambda>task. fst task \<noteq> WaitRepaint n) (tasks s)
             @ [(WaitDelay (length (delays s)), SwapAwaitHide p # k)]"
    and "delays (step env (Repainted n) s) = delays s @ [waitForTimeout (bufferTransitionDuration s)]"
    and "length (buffers (step env (Repainted n) s)) = length (buffers s)"
    and "buffers (step env (Repainted n) s) ! p
           = (buffers s ! p) \<lparr> className := [], hideTransition := Some (length (delays s)) \<rparr>"
  using assms
  by (simp_all add: swapAfterRepaint_def swapFinal_def Let_def updBuffer_def)

lemma hide_timer_cleanup:
  assumes "t < length (delays s)" and "scheduled (delays s ! t)"
    and "filter (\<lambda>task. fst task = WaitDelay t) (tasks s) = [(WaitDelay t, SwapAwaitHide p # k)]"
    and "p < length (buffers s)" and "state (buffers s ! p) = Inactive" and "isPreview (buffers s ! p)"
  shows "\<not> attached (buffers (step env (DelayElapsed t) s) ! p)"
    and "hiddenAttr (buffers (step env (DelayElapsed t) s) ! p) = hiddenAttr (buffers s ! p)"
proof -
  let ?s1 = "s \<lparr> delays := (delays s)[t := elapse (delays s ! t)],
                  tasks := filter (\<lambda>task. fst task \<noteq> WaitDelay t) (tasks s) \<rparr>"
  have eq: "step env (DelayElapsed t) s = returnTo k None (swapCleanup p ?s1)"
    using assms(1-3) by (simp add: wakeDelay_def)
  have h: "p < length (buffers ?s1)" "state (buffers ?s1 ! p) = Inactive" "isPreview (buffers ?s1 ! p)"
    using assms(4-6) by simp_all
  have cv: "coreView (step env (DelayElapsed t) s) = coreView (swapCleanup p ?s1)"
    unfolding eq by simp
  have len: "p < length (buffers (swapCleanup p ?s1))"
    using swapCleanup_preview(3) [OF h] h(1) by simp
  show "\<not> attached (buffers (step env (DelayElapsed t) s) ! p)"
    using coreView_nth(4) [OF cv len] swapCleanup_preview(1) [OF h] by simp
  show "hiddenAttr (buffers (step env (DelayElapsed t) s) ! p) = hiddenAttr (buffers s ! p)"
    using coreView_nth(3) [OF cv len] swapCleanup_preview(2) [OF h] by simp
qed

text \<open>
  Claim C10. The front buffer \<open>createLightbox\<close> builds is Active and a preview. When
  a buffer \<open>b\<close> that is not Active is exchanged to the front while such a placeholder
  \<open>p\<close> is the front buffer, \<open>b\<close> becomes the front buffer and \<open>p\<close> Inactive. If the swap is
  immediate (session not open, no hide timer to cancel on \<open>b\<close>), its cleanup has removed
  the wrapper of \<open>p\<close> and not touched its hidden attribute. If the swap runs with a
  transition (session open, transition duration not zero, \<open>b\<close> attached), \<open>p\<close> stays
  attached when \<open>bufferSwap\<close> suspends and after the render sync of the swap, which
  starts the hide timer of \<open>p\<close> and leaves the cleanup waiting for it; the event of that
  timer then removes the wrapper of \<open>p\<close> and does not touch its hidden attribute.
\<close>

theorem placeholder_disposed:
  assumes "frontBuffer (lightbox s) = p" and "p < length (buffers s)" and "b < length (buffers s)"
    and "b \<noteq> p" and "state (buffers s ! b) \<noteq> Active" and "isPreview (buffers s ! p)"
  shows "state (buffers (createLightbox cfg dl db dz) ! frontBuffer (lightbox (createLightbox cfg dl db dz))) = Active
     \<and> isPreview (buffers (createLightbox cfg dl db dz) ! frontBuffer (lightbox (createLightbox cfg dl db dz)))
     \<and> frontBuffer (lightbox (bufferSwap cfg b k s)) = b
     \<and> state (buffers (bufferSwap cfg b k s) ! p) = Inactive
     \<and> (lightboxState (lightbox s) \<noteq> Open \<and> hideTransition (buffers s ! b) = None \<longrightarrow>
           \<not> attached (buffers (bufferSwap cfg b k s) ! p)
           \<and> hiddenAttr (buffers (bufferSwap cfg b k s) ! p) = hiddenAttr (buffers s ! p))
     \<and> (lightboxState (lightbox s) = Open \<and> bufferTransitionDuration s \<noteq> 0
          \<and> attached (buffers s ! b) \<and> hideTransition (buffers s ! b) = None
          \<and> attached (buffers s ! p)
          \<and> (\<forall>task\<in>set (tasks s). fst task \<noteq> WaitRepaint (repaints s)
                                    \<and> fst task \<noteq> WaitDelay (length (delays s))) \<longrightarrow>
           attached (buffers (bufferSwap (config env) b k s) ! p)
           \<and> attached (buffers (step env (Repainted (repaints s)) (bufferSwap (config env) b k s)) ! p)
           \<and> hideTransition (buffers (step env (Repainted (repaints s)) (bufferSwap (config env) b k s)) ! p)
               = Some (length (delays s))
           \<and> (WaitDelay (length (delays s)), SwapAwaitHide p # k)
               \<in> set (tasks (step env (Repainted (repaints s)) (bufferSwap (config env) b k s)))
           \<and> \<not> attached (buffers (run env [Repainted (repaints s), DelayElapsed (length (delays s))]
                                   (bufferSwap (config env) b k s)) ! p)
           \<and> hiddenAttr (buffers (run env [Repainted (repaints s), DelayElapsed (length (delays s))]
                                    (bufferSwap (config env) b k s)) ! p)
               = hiddenAttr (buffers s ! p))"
proof -
  have A: "state (buffers (createLightbox cfg dl db dz) ! frontBuffer (lightbox (createLightbox cfg dl db dz))) = Active
     \<and> isPreview (buffers (createLightbox cfg dl db dz) ! frontBuffer (lightbox (createLightbox cfg dl db dz)))"
    by (simp add: createLightbox_def createBuffer_def)
  let ?s3 = "updBuffer p (\<lambda>x. x \<lparr> state := Inactive \<rparr>)
               (updBuffer b (\<lambda>x. x \<lparr> state := Active \<rparr>) (updLightbox (\<lambda>l. l \<lparr> frontBuffer := b \<rparr>) s))"
  have sv3: "stateView ?s3 = (b, (map state (buffers s))[b := Active, p := Inactive])"
    by (simp add: stateView_def updBuffer_def updLightbox_def map_update)
  have svFront: "stateView (swapFront cfg b p w k s') = stateView s'" for w s'
    by (simp add: swapFront_def swapFinal_def Let_def split: option.splits)
  have "stateView (bufferSwap cfg b k s) = stateView ?s3"
    using assms(1,5) by (simp add: bufferSwap_def Let_def svFront split: option.splits prod.splits)
  then have sv: "stateView (bufferSwap cfg b k s) = (b, (map state (buffers s))[b := Active, p := Inactive])"
    using sv3 by simp
  have B: "frontBuffer (lightbox (bufferSwap cfg b k s)) = b
     \<and> state (buffers (bufferSwap cfg b k s) ! p) = Inactive"
  proof -
    have "map state (buffers (bufferSwap cfg b k s)) ! p = (map state (buffers s))[b := Active, p := Inactive] ! p"
      using sv by (simp add: stateView_def)
    moreover have "length (buffers (bufferSwap cfg b k s)) = length (buffers s)"
      using arg_cong [OF sv, of "\<lambda>v. length (snd v)"] by (simp add: stateView_def)
    ultimately have "state (buffers (bufferSwap cfg b k s) ! p) = Inactive"
      using assms(2) by simp
    then show ?thesis using sv by (simp add: stateView_def)
  qed
  have C: "\<not> attached (buffers (bufferSwap cfg b k s) ! p)
      \<and> hiddenAttr (buffers (bufferSwap cfg b k s) ! p) = hiddenAttr (buffers s ! p)"
    if imm: "lightboxState (lightbox s) \<noteq> Open" "hideTransition (buffers s ! b) = None"
  proof -
    let ?s4 = "swapFinal cfg b p (updBuffer b (\<lambda>x. x \<lparr> hiddenAttr := False \<rparr>) ?s3)"
    have eq: "bufferSwap cfg b k s = returnTo k None (swapCleanup p ?s4)"
      using assms(1-5) imm
      by (simp add: bufferSwap_def swapFront_def Let_def updBuffer_def updLightbox_def)
    have p4: "p < length (buffers ?s4)" "state (buffers ?s4 ! p) = Inactive" "isPreview (buffers ?s4 ! p)"
      "hiddenAttr (buffers ?s4 ! p) = hiddenAttr (buffers s ! p)"
      using assms(2-6) by (simp_all add: swapFinal_def updBuffer_def updLightbox_def)
    have cv: "coreView (bufferSwap cfg b k s) = coreView (swapCleanup p ?s4)"
      unfolding eq by simp
    have "p < length (buffers (swapCleanup p ?s4))"
      using swapCleanup_preview(3) [OF p4(1-3)] p4(1) by simp
    from coreView_nth(3,4) [OF cv this] swapCleanup_preview(1,2) [OF p4(1-3)] p4(4)
    show ?thesis by simp
  qed
  have D: "attached (buffers (bufferSwap (config env) b k s) ! p)
      \<and> attached (buffers (step env (Repainted (repaints s)) (bufferSwap (config env) b k s)) ! p)
      \<and> hideTransition (buffers (step env (Repainted (repaints s)) (bufferSwap (config env) b k s)) ! p)
          = Some (length (delays s))
      \<and> (WaitDelay (length (delays s)), SwapAwaitHide p # k)
          \<in> set (tasks (step env (Repainted (repaints s)) (bufferSwap (config env) b k s)))
      \<and> \<not> attached (buffers (run env [Repainted (repaints s), DelayElapsed (length (delays s))]
                              (bufferSwap (config env) b k s)) ! p)
      \<and> hiddenAttr (buffers (run env [Repainted (repaints s), DelayElapsed (length (delays s))]
                               (bufferSwap (config env) b k s)) ! p)
          = hiddenAttr (buffers s ! p)"
    if del: "lightboxState (lightbox s) = Open" "bufferTransitionDuration s \<noteq> 0"
      "attached (buffers s ! b)" "hideTransition (buffers s ! b) = None" "attached (buffers s ! p)"
      and fresh: "\<forall>task\<in>set (tasks s). fst task \<noteq> WaitRepaint (repaints s)"
        "\<forall>task\<in>set (tasks s). fst task \<noteq> WaitDelay (length (delays s))"
  proof -
    let ?n = "repaints s" and ?t = "length (delays s)"
    let ?sA = "bufferSwap (config env) b k s"
    let ?sB = "step env (Repainted ?n) ?sA"
    note a = swap_with_transition [OF assms(1-5) del(1-4), of "config env" k]
    have fA: "filter (\<lambda>task. fst task = WaitRepaint ?n) (tasks ?sA)
        = [(WaitRepaint ?n, SwapAwaitRepaint b p # k)]"
      and rA: "filter (\<lambda>task. fst task \<noteq> WaitRepaint ?n) (tasks ?sA) = tasks s"
      using a(1) filter_fresh [OF fresh(1)] by simp_all
    have pA: "p < length (buffers ?sA)" using a(4) assms(2) by simp
    note r = swap_render_sync [OF fA pA assms(4), of env]
    have tB: "tasks ?sB = tasks s @ [(WaitDelay ?t, SwapAwaitHide p # k)]"
      using r(1) rA a(2) by simp
    have dB: "delays ?sB = delays s @ [waitForTimeout (bufferTransitionDuration s)]"
      using r(2) a(2,3) by simp
    have bB: "buffers ?sB ! p
        = (buffers s ! p) \<lparr> state := Inactive, className := [], hideTransition := Some ?t \<rparr>"
      using r(4) a(2,5) by simp
    have pB: "p < length (buffers ?sB)" using r(3) pA by simp
    have fB: "filter (\<lambda>task. fst task = WaitDelay ?t) (tasks ?sB)
        = [(WaitDelay ?t, SwapAwaitHide p # k)]"
      using tB filter_fresh(1) [OF fresh(2)] by simp
    have sched: "?t < length (delays ?sB)" "scheduled (delays ?sB ! ?t)"
      using dB by (simp_all add: waitForTimeout_def)
    have st: "state (buffers ?sB ! p) = Inactive" "isPreview (buffers ?sB ! p)"
      using bB assms(6) by simp_all
    note c = hide_timer_cleanup [OF sched fB pB st, of env]
    have run2: "run env [Repainted ?n, DelayElapsed ?t] ?sA = step env (DelayElapsed ?t) ?sB"
      by (simp add: run_def)
    have "attached (buffers ?sA ! p)" using a(5) del(5) by simp
    moreover have "attached (buffers ?sB ! p)" "hideTransition (buffers ?sB ! p) = Some ?t"
      using bB del(5) by simp_all
    moreover have "(WaitDelay ?t, SwapAwaitHide p # k) \<in> set (tasks ?sB)"
      using tB by simp
    moreover have "hiddenAttr (buffers ?sB ! p) = hiddenAttr (buffers s ! p)"
      using bB by simp
    ultimately show ?thesis using c unfolding run2 by simp
  qed
  show ?thesis using A B C D by blast
qed

theorem placeholder_disposed_witness:
  "frontBuffer (lightbox sampleLoading) = 0
   \<and> isPreview (buffers sampleLoading ! 0)
   \<and> state (buffers sampleLoading ! 1) = Loading
   \<and> lightboxState (lightbox sampleLoading) = Opening
   \<and> frontBuffer (lightbox (bufferSwap defaultOptions 1 [AfterLoadAwaitSwap] sampleLoading)) = 1
   \<and> state (buffers (bufferSwap defaultOptions 1 [AfterLoadAwaitSwap] sampleLoading) ! 0) = Inactive
   \<and> \<not> attached (buffers (bufferSwap defaultOptions 1 [AfterLoadAwaitSwap] sampleLoading) ! 0)
   \<and> \<not> hiddenAttr (buffers (bufferSwap defaultOptions 1 [AfterLoadAwaitSwap] sampleLoading) ! 0)
   \<and> frontBuffer (lightbox sampleOpenPlaceholder) = 0
   \<and> isPreview (buffers sampleOpenPlaceholder ! 0)
   \<and> attached (buffers sampleOpenPlaceholder ! 0)
   \<and> lightboxState (lightbox sampleOpenPlaceholder) = Open
   \<and> repaints sampleOpenPlaceholder = 4
   \<and> length (delays sampleOpenPlaceholder) = 1
   \<and> frontBuffer (lightbox (bufferSwap defaultOptions 2 [AfterLoadAwaitSwap] sampleOpenPlaceholder)) = 2
   \<and> state (buffers (bufferSwap defaultOptions 2 [AfterLoadAwaitSwap] sampleOpenPlaceholder) ! 0) = Inactive
   \<and> attached (buffers (bufferSwap defaultOptions 2 [AfterLoadAwaitSwap] sampleOpenPlaceholder) ! 0)
   \<and> attached (buffers (step sampleEnv (Repainted 4)
                  (bufferSwap defaultOptions 2 [AfterLoadAwaitSwap] sampleOpenPlaceholder)) ! 0)
   \<and> hideTransition (buffers (step sampleEnv (Repainted 4)
                  (bufferSwap defaultOptions 2 [AfterLoadAwaitSwap] sampleOpenPlaceholder)) ! 0) = Some 1
   \<and> \<not> attached (buffers (run sampleEnv [Repainted 4, DelayElapsed 1]
                  (bufferSwap defaultOptions 2 [AfterLoadAwaitSwap] sampleOpenPlaceholder)) ! 0)
   \<and> \<not> hiddenAttr (buffers (run sampleEnv [Repainted 4, DelayElapsed 1]
                  (bufferSwap defaultOptions 2 [AfterLoadAwaitSwap] sampleOpenPlaceholder)) ! 0)
   \<and> sampleHiding = run sampleEnv [LoadSettled 2 None, Repainted 4] sampleOpenPlaceholder
   \<and> state (buffers sampleHiding ! 0) = Inactive
   \<and> attached (buffers sampleHiding ! 0)
   \<and> \<not> attached (buffers (step sampleEnv (DelayElapsed 1) sampleHiding) ! 0)
   \<and> \<not> hiddenAttr (buffers (step sampleEnv (DelayElapsed 1) sampleHiding) ! 0)"
proof -
  have h: "frontBuffer (lightbox sampleLoading) = 0" "0 < length (buffers sampleLoading)"
    "1 < length (buffers sampleLoading)" "(1::nat) \<noteq> 0" "state (buffers sampleLoading ! 1) \<noteq> Active"
    "isPreview (buffers sampleLoading ! 0)"
    by (simp_all add: sample_defs model_defs)
  have v: "state (buffers sampleLoading ! 1) = Loading" "lightboxState (lightbox sampleLoading) = Opening"
    "hideTransition (buffers sampleLoading ! 1) = None" "\<not> hiddenAttr (buffers sampleLoading ! 0)"
    by (simp_all add: sample_defs model_defs)
  have g: "frontBuffer (lightbox sampleOpenPlaceholder) = 0" "0 < length (buffers sampleOpenPlaceholder)"
    "2 < length (buffers sampleOpenPlaceholder)" "(2::nat) \<noteq> 0"
    "state (buffers sampleOpenPlaceholder ! 2) \<noteq> Active" "isPreview (buffers sampleOpenPlaceholder ! 0)"
    by (simp_all add: sample_defs model_defs)
  have w: "lightboxState (lightbox sampleOpenPlaceholder) = Open"
    "bufferTransitionDuration sampleOpenPlaceholder \<noteq> 0"
    "attached (buffers sampleOpenPlaceholder ! 2)"
    "hideTransition (buffers sampleOpenPlaceholder ! 2) = None"
    "attached (buffers sampleOpenPlaceholder ! 0)"
    "\<forall>task\<in>set (tasks sampleOpenPlaceholder).
        fst task \<noteq> WaitRepaint (repaints sampleOpenPlaceholder)
        \<and> fst task \<noteq> WaitDelay (length (delays sampleOpenPlaceholder))"
    "repaints sampleOpenPlaceholder = 4" "length (delays sampleOpenPlaceholder) = 1"
    "\<not> hiddenAttr (buffers sampleOpenPlaceholder ! 0)" "config sampleEnv = defaultOptions"
    by (simp_all add: sample_defs model_defs)
  have e: "sampleHiding = run sampleEnv [LoadSettled 2 None, Repainted 4] sampleOpenPlaceholder"
    "state (buffers sampleHiding ! 0) = Inactive" "attached (buffers sampleHiding ! 0)"
    "\<not> attached (buffers (step sampleEnv (DelayElapsed 1) sampleHiding) ! 0)"
    "\<not> hiddenAttr (buffers (step sampleEnv (DelayElapsed 1) sampleHiding) ! 0)"
    by (simp_all add: sample_defs model_defs)
  note t = placeholder_disposed [OF h, of defaultOptions 300 200 100 "[AfterLoadAwaitSwap]" sampleEnv]
  note u = placeholder_disposed [OF g, of defaultOptions 300 200 100 "[AfterLoadAwaitSwap]" sampleEnv]
  have "frontBuffer (lightbox (bufferSwap defaultOptions 1 [AfterLoadAwaitSwap] sampleLoading)) = 1"
    and "state (buffers (bufferSwap defaultOptions 1 [AfterLoadAwaitSwap] sampleLoading) ! 0) = Inactive"
    using t by blast+
  moreover have "\<not> attached (buffers (bufferSwap defaultOptions 1 [AfterLoadAwaitSwap] sampleLoading) ! 0)"
    and "\<not> hiddenAttr (buffers (bufferSwap defaultOptions 1 [AfterLoadAwaitSwap] sampleLoading) ! 0)"
    using t v by simp_all
  moreover have "frontBuffer (lightbox (bufferSwap defaultOptions 2 [AfterLoadAwaitSwap] sampleOpenPlaceholder)) = 2"
    and "state (buffers (bufferSwap defaultOptions 2 [AfterLoadAwaitSwap] sampleOpenPlaceholder) ! 0) = Inactive"
    using u by blast+
  moreover have "attached (buffers (bufferSwap defaultOptions 2 [AfterLoadAwaitSwap] sampleOpenPlaceholder) ! 0)
     \<and> attached (buffers (step sampleEnv (Repainted 4)
                  (bufferSwap defaultOptions 2 [AfterLoadAwaitSwap] sampleOpenPlaceholder)) ! 0)
     \<and> hideTransition (buffers (step sampleEnv (Repainted 4)
                  (bufferSwap defaultOptions 2 [AfterLoadAwaitSwap] sampleOpenPlaceholder)) ! 0) = Some 1
     \<and> \<not> attached (buffers (run sampleEnv [Repainted 4, DelayElapsed 1]
                  (bufferSwap defaultOptions 2 [AfterLoadAwaitSwap] sampleOpenPlaceholder)) ! 0)
     \<and> \<not> hiddenAttr (buffers (run sampleEnv [Repainted 4, DelayElapsed 1]
                  (bufferSwap defaultOptions 2 [AfterLoadAwaitSwap] sampleOpenPlaceholder)) ! 0)"
    using u w by simp
  ultimately show ?thesis using h(1,6) v(1,2) g(1,6) w(1,5,7,8) e by blast
qed

section \<open>The front buffer\<close>

text \<open>
  Claim C3 does not hold on the code. The run: the first picture is open (front buffer
  1, Active); the close button is clicked; while the closing transition runs, the next
  button is clicked, the second picture loads, and the previous button is clicked. The
  call \<open>present\<close> for the first picture finds its buffer, which is the front buffer, and
  the callback chained to its load runs while the session is closing: it takes the
  branch that sets the buffer Inactive, clears its classes and hides it. The front
  buffer is then Inactive and hidden.
\<close>

theorem front_buffer_inactive_after_navigation_while_closing:
  "lightboxState (lightbox sampleOpen) = Open
   \<and> frontBuffer (lightbox sampleOpen) = 1
   \<and> state (buffers sampleOpen ! 1) = Active
   \<and> lightboxState (lightbox (run sampleEnv navigateWhileClosing sampleOpen)) = Closing
   \<and> frontBuffer (lightbox (run sampleEnv navigateWhileClosing sampleOpen)) = 1
   \<and> state (buffers (run sampleEnv navigateWhileClosing sampleOpen) ! 1) = Inactive
   \<and> hiddenAttr (buffers (run sampleEnv navigateWhileClosing sampleOpen) ! 1)
   \<and> Active \<notin> set (map state (buffers (run sampleEnv navigateWhileClosing sampleOpen)))"
  by (simp add: sample_defs model_defs)

section \<open>Closing on scroll\<close>

text \<open>What \<open>lightboxScrollHandler\<close> does while the session is open.\<close>

lemma scroll_first_event:
  "lightboxState (lightbox s) = Open \<Longrightarrow> anchorScrollPosition s = None \<Longrightarrow>
   lightboxScrollHandler cfg x y s = s \<lparr> anchorScrollPosition := Some (x, y) \<rparr>"
  by (simp add: lightboxScrollHandler_def)

lemma scroll_within_threshold:
  "lightboxState (lightbox s) = Open \<Longrightarrow> anchorScrollPosition s = Some (ax, ay) \<Longrightarrow>
   \<bar>x - ax\<bar> \<le> scrollThreshold cfg \<Longrightarrow> \<bar>y - ay\<bar> \<le> scrollThreshold cfg \<Longrightarrow>
   lightboxScrollHandler cfg x y s = s"
  by (simp add: lightboxScrollHandler_def Let_def)

lemma scroll_sequence_within_threshold:
  "lightboxState (lightbox s) = Open \<Longrightarrow> anchorScrollPosition s = Some (ax, ay) \<Longrightarrow>
   \<forall>p \<in> set ps. \<bar>fst p - ax\<bar> \<le> scrollThreshold cfg \<and> \<bar>snd p - ay\<bar> \<le> scrollThreshold cfg \<Longrightarrow>
   foldl (\<lambda>s' p. lightboxScrollHandler cfg (fst p) (snd p) s') s ps = s"
  by (induction ps) (simp_all add: scroll_within_threshold)

lemma scroll_beyond_threshold:
  "lightboxState (lightbox s) = Open \<Longrightarrow> anchorScrollPosition s = Some (ax, ay) \<Longrightarrow>
   scrollThreshold cfg < \<bar>x - ax\<bar> \<or> scrollThreshold cfg < \<bar>y - ay\<bar> \<Longrightarrow>
   lightboxScrollHandler cfg x y s = lightboxCloseHandler cfg (s \<lparr> anchorScrollPosition := None \<rparr>)"
  by (auto simp: lightboxScrollHandler_def Let_def max_def)

text \<open>
  Claim C6 does not hold on the code in a session that follows a close by the button.
  The run: the lightbox is open and one scroll event records the anchor (0, 100); the
  close button closes it, which leaves the anchor; the page is scrolled on to 999 and
  the picture is opened again. The first scroll event after this opening, at 1000, is
  compared with the anchor of the session before: it records no anchor and closes the
  lightbox, one pixel away from where the page was when it opened.
\<close>

theorem stale_anchor_closes_on_first_scroll:
  "lightboxState (lightbox sampleReopened) = Open
   \<and> anchorScrollPosition sampleReopened = Some (0, 100)
   \<and> lightboxState (lightbox (step sampleEnv (Scroll 0 1000) sampleReopened)) = Closing
   \<and> anchorScrollPosition (step sampleEnv (Scroll 0 1000) sampleReopened) = None"
  by (simp add: sample_defs model_defs)

section \<open>The gallery links\<close>

lemma members_snoc:
  "members g (els @ [el]) = members g els @ (if dataLightbox el = g then [length els] else [])"
proof -
  have "filter (\<lambda>n. dataLightbox ((els @ [el]) ! n) = g) [0..<length els]
      = filter (\<lambda>n. dataLightbox (els ! n) = g) [0..<length els]"
    by (rule filter_cong) (simp_all add: nth_append)
  then show ?thesis by (simp add: members_def)
qed

lemma members_less: "n \<in> set (members g els) \<Longrightarrow> n < length els \<and> dataLightbox (els ! n) = g"
  by (simp add: members_def)

lemma members_distinct: "distinct (members g els)"
  by (simp add: members_def)

lemma members_disjoint: "g \<noteq> g' \<Longrightarrow> n \<in> set (members g els) \<Longrightarrow> n \<notin> set (members g' els)"
  by (auto simp: members_def)

lemma map_cong_set: "(\<And>n. n \<in> set ms \<Longrightarrow> f n = f' n) \<Longrightarrow> map f ms = map f' ms"
  by simp

text \<open>A chain is not disturbed by changes outside it.\<close>

lemma chained_frame:
  assumes "chained refs ms"
    and "\<And>n. n \<in> set ms \<Longrightarrow> previous (refs' ! n) = previous (refs ! n) \<and> nextRef (refs' ! n) = nextRef (refs ! n)"
  shows "chained refs' ms"
proof -
  have a: "map (\<lambda>n. previous (refs' ! n)) ms = map (\<lambda>n. previous (refs ! n)) ms"
    by (rule map_cong_set) (simp add: assms(2))
  have b: "map (\<lambda>n. nextRef (refs' ! n)) ms = map (\<lambda>n. nextRef (refs ! n)) ms"
    by (rule map_cong_set) (simp add: assms(2))
  show ?thesis using assms(1) unfolding chained_def a b .
qed

text \<open>Appending a new tail to a chain.\<close>

lemma chained_snoc:
  assumes "chained refs ms" and "ms \<noteq> []" and "distinct ms" and "i \<notin> set ms"
    and "previous (refs' ! i) = Some (last ms)" and "nextRef (refs' ! i) = None"
    and "nextRef (refs' ! last ms) = Some i"
    and "\<And>n. n \<in> set ms \<Longrightarrow> previous (refs' ! n) = previous (refs ! n)"
    and "\<And>n. n \<in> set ms \<Longrightarrow> n \<noteq> last ms \<Longrightarrow> nextRef (refs' ! n) = nextRef (refs ! n)"
  shows "chained refs' (ms @ [i])"
proof -
  obtain bs t where ms: "ms = bs @ [t]"
    using assms(2) by (metis rev_exhaust)
  have t: "last ms = t" "t \<notin> set bs" using ms assms(3) by simp_all
  have p: "map (\<lambda>n. previous (refs ! n)) ms = None # map Some bs"
    and nx: "map (\<lambda>n. nextRef (refs ! n)) ms = map Some (tl ms) @ [None]"
    using assms(1,2) ms by (simp_all add: chained_def)
  have p': "map (\<lambda>n. previous (refs' ! n)) ms = map (\<lambda>n. previous (refs ! n)) ms"
    using assms(8) by simp
  have "map (\<lambda>n. nextRef (refs' ! n)) bs = map (\<lambda>n. nextRef (refs ! n)) bs"
    using assms(9) ms t by (intro map_cong_set) auto
  moreover have "map (\<lambda>n. nextRef (refs ! n)) bs = map Some (tl ms)"
  proof -
    have "map (\<lambda>n. nextRef (refs ! n)) bs @ [nextRef (refs ! t)] = map Some (tl ms) @ [None]"
      using nx ms by simp
    then show ?thesis by simp
  qed
  ultimately have n': "map (\<lambda>n. nextRef (refs' ! n)) ms = map Some (tl ms) @ [Some i]"
    using ms t assms(7) by simp
  have "map (\<lambda>n. previous (refs' ! n)) (ms @ [i]) = None # map Some (butlast (ms @ [i]))"
    using p p' assms(5) ms by (simp add: butlast_append)
  moreover have "map (\<lambda>n. nextRef (refs' ! n)) (ms @ [i]) = map Some (tl (ms @ [i])) @ [None]"
    using n' assms(6,2) by simp
  ultimately show ?thesis by (simp add: chained_def)
qed

lemma map_of_setTail:
  "map_of (setTail g i gm) key
     = (if key = g then map_option (\<lambda>ht. (fst ht, i)) (map_of gm key) else map_of gm key)"
  by (induction gm) (auto simp: setTail_def)

lemma map_fst_setTail: "map fst (setTail g i gm) = map fst gm"
  by (induction gm) (auto simp: setTail_def)

lemma map_of_snoc_fresh:
  "map_of gm g = None \<Longrightarrow> map_of (gm @ [(g, v)]) key = (if key = g then Some v else map_of gm key)"
  by (induction gm) auto

lemma scanInv_empty: "scanInv [] ([], [])"
  by (simp add: scanInv_def members_def chained_def)

lemma nth_new_ref:
  "n < length refs \<Longrightarrow> (refs @ [r]) ! n = refs ! n"
  by (simp add: nth_append)

lemma scanInv_step:
  assumes inv: "scanInv els acc" and mode: "galleryMode cfg"
  shows "scanInv (els @ [el]) (addImage cfg acc el)"
proof -
  obtain refs gal where acc: "acc = (refs, gal)" by (cases acc)
  define i where "i = length refs"
  define tg where "tg = dataLightbox el"
  define refs1 where "refs1 = refs @ [\<lparr> wrapper = el, nextRef = None, previous = None \<rparr>]"
  have len: "length refs = length els" and dist: "distinct (map fst gal)"
    using inv by (simp_all add: scanInv_def acc)
  have ent: "case map_of gal key of
               None \<Rightarrow> key = [] \<or> members key els = []
             | Some ht \<Rightarrow> key \<noteq> [] \<and> members key els \<noteq> []
                         \<and> fst ht = hd (members key els) \<and> snd ht = last (members key els)" for key
    using inv by (simp add: scanInv_def acc)
  have ch: "chained refs (members g els)" if "g \<noteq> []" for g
    using inv that by (auto simp: scanInv_def acc)
  have lt: "n < i" if "n \<in> set (members g els)" for n g
    using members_less [OF that] len by (simp add: i_def)
  have snoc: "members g (els @ [el]) = members g els @ (if tg = g then [i] else [])" for g
    by (simp add: members_snoc tg_def i_def len)
  have old: "refs1 ! n = refs ! n" if "n < i" for n
    using that by (simp add: refs1_def i_def nth_append)
  have new: "refs1 ! i = \<lparr> wrapper = el, nextRef = None, previous = None \<rparr>"
    by (simp add: refs1_def i_def)
  have len1: "length refs1 = Suc i" by (simp add: refs1_def i_def)
  show ?thesis
  proof (cases "tg = []")
    case True
    have add: "addImage cfg acc el = (refs1, gal)"
      using True by (simp add: addImage_def acc Let_def refs1_def tg_def)
    have same: "members g (els @ [el]) = members g els" if "g \<noteq> []" for g
      using snoc [of g] True that by auto
    have "chained refs1 (members g (els @ [el]))" if "g \<noteq> []" for g
      unfolding same [OF that]
      by (rule chained_frame [OF ch [OF that]]) (simp add: old lt)
    moreover have "case map_of gal key of
               None \<Rightarrow> key = [] \<or> members key (els @ [el]) = []
             | Some ht \<Rightarrow> key \<noteq> [] \<and> members key (els @ [el]) \<noteq> []
                         \<and> fst ht = hd (members key (els @ [el]))
                         \<and> snd ht = last (members key (els @ [el]))" for key
      using ent [of key] same [of key] by (cases "key = []") (auto split: option.splits)
    ultimately show ?thesis
      unfolding add scanInv_def using dist len1 len by (auto simp: i_def)
  next
    case False
    show ?thesis
    proof (cases "map_of gal tg")
      case None
      have empty: "members tg els = []"
        using ent [of tg] None False by simp
      have add: "addImage cfg acc el = (refs1, gal @ [(tg, i, i)])"
        using False None mode by (simp add: addImage_def acc Let_def refs1_def tg_def i_def)
      have fresh: "tg \<notin> fst ` set gal"
        using None by (simp add: map_of_eq_None_iff)
      have dist': "distinct (map fst (gal @ [(tg, i, i)]))"
        using dist fresh by simp
      have mo: "map_of (gal @ [(tg, i, i)]) key = (if key = tg then Some (i, i) else map_of gal key)" for key
        by (rule map_of_snoc_fresh [OF None])
      have ent': "case map_of (gal @ [(tg, i, i)]) key of
               None \<Rightarrow> key = [] \<or> members key (els @ [el]) = []
             | Some ht \<Rightarrow> key \<noteq> [] \<and> members key (els @ [el]) \<noteq> []
                         \<and> fst ht = hd (members key (els @ [el]))
                         \<and> snd ht = last (members key (els @ [el]))" for key
      proof (cases "key = tg")
        case True
        then show ?thesis using False empty snoc [of tg] unfolding mo by (auto split: option.splits)
      next
        case k: False
        then have "members key (els @ [el]) = members key els" using snoc [of key] by auto
        then show ?thesis using ent [of key] k unfolding mo by (auto split: option.splits)
      qed
      have ch': "chained refs1 (members g (els @ [el]))" if "g \<noteq> []" for g
      proof (cases "g = tg")
        case True
        then have "members g (els @ [el]) = [i]" using empty snoc [of tg] by simp
        then show ?thesis by (simp add: chained_def new)
      next
        case k: False
        then have "members g (els @ [el]) = members g els" using snoc [of g] by auto
        then show ?thesis
          using chained_frame [OF ch [OF that], of refs1] by (simp add: old lt)
      qed
      show ?thesis
        unfolding add scanInv_def using dist' ent' ch' len1 len by (auto simp: i_def)
    next
      case (Some ht)
      define t where "t = snd ht"
      define ms where "ms = members tg els"
      have ms: "ms \<noteq> []" "fst ht = hd ms" "t = last ms"
        using ent [of tg] Some by (simp_all add: ms_def t_def)
      have t_in: "t \<in> set ms" using ms by simp
      then have t_lt: "t < i" using lt [of t tg] by (simp add: ms_def)
      define refs3 where
        "refs3 = (refs1[i := (refs1 ! i) \<lparr> previous := Some t \<rparr>])
                   [t := ((refs1[i := (refs1 ! i) \<lparr> previous := Some t \<rparr>]) ! t) \<lparr> nextRef := Some i \<rparr>]"
      have add: "addImage cfg acc el = (refs3, setTail tg i gal)"
        using False Some mode
        by (simp add: addImage_def acc Let_def refs1_def tg_def i_def refs3_def t_def split: prod.splits)
      have r_new: "refs3 ! i = \<lparr> wrapper = el, nextRef = None, previous = Some t \<rparr>"
        using t_lt len1 by (simp add: refs3_def new)
      have r_t: "refs3 ! t = (refs ! t) \<lparr> nextRef := Some i \<rparr>"
        using t_lt len1 by (simp add: refs3_def old)
      have r_old: "refs3 ! n = refs ! n" if "n < i" "n \<noteq> t" for n
        using that len1 by (simp add: refs3_def old)
      have len3: "length refs3 = Suc i" by (simp add: refs3_def len1)
      have dist': "distinct (map fst (setTail tg i gal))"
        using dist by (simp add: map_fst_setTail)
      have ent': "case map_of (setTail tg i gal) key of
               None \<Rightarrow> key = [] \<or> members key (els @ [el]) = []
             | Some ht \<Rightarrow> key \<noteq> [] \<and> members key (els @ [el]) \<noteq> []
                         \<and> fst ht = hd (members key (els @ [el]))
                         \<and> snd ht = last (members key (els @ [el]))" for key
      proof (cases "key = tg")
        case True
        then show ?thesis
          using False Some ms snoc [of tg] by (auto simp: map_of_setTail ms_def split: option.splits)
      next
        case k: False
        then have "members key (els @ [el]) = members key els" using snoc [of key] by auto
        then show ?thesis using ent [of key] k by (auto simp: map_of_setTail split: option.splits)
      qed
      have ch': "chained refs3 (members g (els @ [el]))" if "g \<noteq> []" for g
      proof (cases "g = tg")
        case True
        have "chained refs3 (ms @ [i])"
        proof (rule chained_snoc [where refs = refs])
          show "chained refs ms" using ch [OF False] by (simp add: ms_def)
          show "ms \<noteq> []" by (rule ms(1))
          show "distinct ms" by (simp add: ms_def members_distinct)
          show "i \<notin> set ms" using lt [of i tg] by (auto simp: ms_def)
          show "previous (refs3 ! i) = Some (last ms)" using r_new ms(3) by simp
          show "nextRef (refs3 ! i) = None" using r_new by simp
          show "nextRef (refs3 ! last ms) = Some i" using r_t ms(3) by simp
          show "previous (refs3 ! n) = previous (refs ! n)" if "n \<in> set ms" for n
            using that r_t r_old [of n] lt [of n tg] by (cases "n = t") (simp_all add: ms_def)
          show "nextRef (refs3 ! n) = nextRef (refs ! n)" if "n \<in> set ms" "n \<noteq> last ms" for n
            using that r_old [of n] lt [of n tg] ms(3) by (simp add: ms_def)
        qed
        then show ?thesis using True snoc [of tg] by (simp add: ms_def)
      next
        case k: False
        then have same: "members g (els @ [el]) = members g els" using snoc [of g] by auto
        have "refs3 ! n = refs ! n" if "n \<in> set (members g els)" for n
        proof -
          have "n \<noteq> t" using members_disjoint [OF k that] t_in by (auto simp: ms_def)
          then show ?thesis using r_old lt [OF that] by simp
        qed
        then show ?thesis
          unfolding same using chained_frame [OF ch [OF that], of refs3] by simp
      qed
      show ?thesis
        unfolding add scanInv_def using dist' ent' ch' len3 len by (auto simp: i_def)
    qed
  qed
qed

lemma scanInv_scan: "galleryMode cfg \<Longrightarrow> scanInv els (foldl (addImage cfg) ([], []) els)"
  by (induction els rule: rev_induct) (simp_all add: scanInv_empty scanInv_step)

lemma connectLoops_append:
  "connectLoops (gm1 @ gm2) refs = connectLoops gm2 (connectLoops gm1 refs)"
  by (induction gm1 refs rule: connectLoops.induct) simp_all

lemma connectLoops_length [simp]: "length (connectLoops gm refs) = length refs"
  by (induction gm refs rule: connectLoops.induct) (simp_all add: Let_def)

lemma nth_update_previous: "nextRef (refs[h := (refs ! h) \<lparr> previous := v \<rparr>] ! n) = nextRef (refs ! n)"
  by (cases "h < length refs") (simp_all add: nth_list_update list_update_beyond not_less)

lemma nth_update_nextRef: "previous (refs[t := (refs ! t) \<lparr> nextRef := v \<rparr>] ! n) = previous (refs ! n)"
  by (cases "t < length refs") (simp_all add: nth_list_update list_update_beyond not_less)

lemma connectLoops_frame:
  assumes "\<And>key h t. (key, h, t) \<in> set gm \<Longrightarrow> h \<noteq> n \<and> t \<noteq> n"
  shows "nextRef (connectLoops gm refs ! n) = nextRef (refs ! n)
       \<and> previous (connectLoops gm refs ! n) = previous (refs ! n)"
  using assms
proof (induction gm refs rule: connectLoops.induct)
  case (1 refs)
  then show ?case by simp
next
  case (2 key h t gm refs)
  have ne: "h \<noteq> n" "t \<noteq> n" using "2.prems" [of key h t] by simp_all
  have rest: "h' \<noteq> n \<and> t' \<noteq> n" if "(key', h', t') \<in> set gm" for key' h' t'
    using "2.prems" [of key' h' t'] that by simp
  show ?case
    using "2.IH" [OF rest] ne by (simp add: Let_def nth_update_previous nth_update_nextRef)
qed

lemma gallery_chain3:
  assumes "chained refs [i, j, k]"
  shows "previous (refs ! i) = None" "nextRef (refs ! i) = Some j"
    "previous (refs ! j) = Some i" "nextRef (refs ! j) = Some k"
    "previous (refs ! k) = Some j" "nextRef (refs ! k) = None"
  using assms by (simp_all add: chained_def)

text \<open>
  Claim C9. After \<open>init\<close> with gallery mode on, let the elements with the gallery key
  \<open>g\<close> (not empty) be exactly three, at the positions \<open>i\<close>, \<open>j\<close>, \<open>k\<close> of the scan in this
  order, whatever else is scanned around them. Then head, middle and tail are linked in
  both directions, and head.previous and tail.next are the tail and the head with
  looping on, and null with looping off.
\<close>

theorem gallery_linkage:
  assumes "galleryMode cfg" and "g \<noteq> []"
    and "filter (\<lambda>n. dataLightbox (els ! n) = g) [0..<length els] = [i, j, k]"
  shows "nextRef (init cfg els ! i) = Some j \<and> previous (init cfg els ! j) = Some i
     \<and> nextRef (init cfg els ! j) = Some k \<and> previous (init cfg els ! k) = Some j
     \<and> previous (init cfg els ! i) = (if galleryLoop cfg then Some k else None)
     \<and> nextRef (init cfg els ! k) = (if galleryLoop cfg then Some i else None)"
proof -
  obtain refs gal where sc: "foldl (addImage cfg) ([], []) els = (refs, gal)"
    by (cases "foldl (addImage cfg) ([], []) els")
  have inv: "scanInv els (refs, gal)"
    using scanInv_scan [OF assms(1), of els] sc by simp
  have ms: "members g els = [i, j, k]" using assms(3) by (simp add: members_def)
  have len: "length refs = length els" and dist: "distinct (map fst gal)"
    using inv by (simp_all add: scanInv_def)
  have ent: "case map_of gal key of
               None \<Rightarrow> key = [] \<or> members key els = []
             | Some ht \<Rightarrow> key \<noteq> [] \<and> members key els \<noteq> []
                         \<and> fst ht = hd (members key els) \<and> snd ht = last (members key els)" for key
    using inv by (simp add: scanInv_def)
  have "chained refs (members g els)"
    using inv assms(2) by (auto simp: scanInv_def)
  then have ch: "chained refs [i, j, k]" using ms by simp
  note c = gallery_chain3 [OF ch]
  have dk: "distinct [i, j, k]" using members_distinct [of g els] ms by simp
  have lt: "i < length refs" "k < length refs"
    using members_less [of i g els] members_less [of k g els] ms len by simp_all
  show ?thesis
  proof (cases "galleryLoop cfg")
    case False
    then have "init cfg els = refs" using sc by (simp add: init_def)
    then show ?thesis using c False by simp
  next
    case True
    then have init: "init cfg els = connectLoops gal refs"
      using sc assms(1) by (simp add: init_def)
    have "map_of gal g = Some (i, k)"
      using ent [of g] ms assms(2) by (cases "map_of gal g") (auto simp: prod_eq_iff)
    then have "(g, i, k) \<in> set gal" by (rule map_of_SomeD)
    then obtain gm1 gm2 where gal: "gal = gm1 @ (g, i, k) # gm2"
      using split_list [of "(g, i, k)" gal] by blast
    have fresh: "g \<notin> fst ` set gm1" "g \<notin> fst ` set gm2"
      using dist gal by simp_all
    have other: "h \<notin> {i, j, k} \<and> t \<notin> {i, j, k}" if "(key, h, t) \<in> set gm1 \<union> set gm2" for key h t
    proof -
      have "key \<in> fst ` set gm1 \<or> key \<in> fst ` set gm2"
        using that by (auto simp: image_iff intro: bexI [of _ "(key, h, t)"])
      then have "key \<noteq> g" using fresh by auto
      have "(key, h, t) \<in> set gal" using that gal by auto
      then have "map_of gal key = Some (h, t)" by (rule map_of_is_SomeI [OF dist])
      then have m: "members key els \<noteq> []" "h = hd (members key els)" "t = last (members key els)"
        using ent [of key] by simp_all
      then have "h \<in> set (members key els)" "t \<in> set (members key els)" by simp_all
      then have "h \<notin> set (members g els)" "t \<notin> set (members g els)"
        using members_disjoint [OF \<open>key \<noteq> g\<close>] by blast+
      then show ?thesis using ms by simp
    qed
    define r1 where "r1 = connectLoops gm1 refs"
    define r2 where "r2 = (r1[i := (r1 ! i) \<lparr> previous := Some k \<rparr>])
         [k := ((r1[i := (r1 ! i) \<lparr> previous := Some k \<rparr>]) ! k) \<lparr> nextRef := Some i \<rparr>]"
    have split: "init cfg els = connectLoops gm2 r2"
      using dk by (simp add: init gal connectLoops_append r1_def r2_def Let_def)
    have f1: "nextRef (r1 ! n) = nextRef (refs ! n) \<and> previous (r1 ! n) = previous (refs ! n)"
      if "n \<in> {i, j, k}" for n
      unfolding r1_def
    proof (rule connectLoops_frame)
      fix key h t assume "(key, h, t) \<in> set gm1"
      then show "h \<noteq> n \<and> t \<noteq> n" using other [of key h t] that by auto
    qed
    have f2: "nextRef (init cfg els ! n) = nextRef (r2 ! n) \<and> previous (init cfg els ! n) = previous (r2 ! n)"
      if "n \<in> {i, j, k}" for n
      unfolding split
    proof (rule connectLoops_frame)
      fix key h t assume "(key, h, t) \<in> set gm2"
      then show "h \<noteq> n \<and> t \<noteq> n" using other [of key h t] that by auto
    qed
    have l1: "length r1 = length refs" by (simp add: r1_def)
    have "nextRef (r2 ! i) = nextRef (r1 ! i)" "previous (r2 ! i) = Some k"
      "nextRef (r2 ! j) = nextRef (r1 ! j)" "previous (r2 ! j) = previous (r1 ! j)"
      "nextRef (r2 ! k) = Some i" "previous (r2 ! k) = previous (r1 ! k)"
      using dk lt l1 by (simp_all add: r2_def)
    then show ?thesis using f1 f2 c True by simp
  qed
qed

theorem gallery_linkage_witness:
  "galleryMode defaultOptions \<and> galleryLoop defaultOptions
   \<and> \<not> galleryLoop (defaultOptions \<lparr> galleryLoop := False \<rparr>)
   \<and> filter (\<lambda>n. dataLightbox (sampleGallery ! n) = ''g'') [0..<length sampleGallery] = [0, 2, 4]
   \<and> nextRef (init defaultOptions sampleGallery ! 0) = Some 2
   \<and> previous (init defaultOptions sampleGallery ! 0) = Some 4
   \<and> nextRef (init defaultOptions sampleGallery ! 4) = Some 0
   \<and> previous (init (defaultOptions \<lparr> galleryLoop := False \<rparr>) sampleGallery ! 0) = None
   \<and> nextRef (init (defaultOptions \<lparr> galleryLoop := False \<rparr>) sampleGallery ! 4) = None"
proof -
  have m: "galleryMode defaultOptions" "galleryMode (defaultOptions \<lparr> galleryLoop := False \<rparr>)"
    "galleryLoop defaultOptions" "\<not> galleryLoop (defaultOptions \<lparr> galleryLoop := False \<rparr>)"
    by (simp_all add: defaultOptions_def)
  have g: "''g'' \<noteq> []" by simp
  have f: "filter (\<lambda>n. dataLightbox (sampleGallery ! n) = ''g'') [0..<length sampleGallery] = [0, 2, 4]"
    by (simp add: sampleGallery_def upt_rec_numeral)
  from gallery_linkage [OF m(1) g f] gallery_linkage [OF m(2) g f] m f show ?thesis by simp
qed

end
